theory Spec2Isabelle
  imports Complex_Main "HOL-Library.Word"
begin

section \<open>The Rex terrain engine's TileNode (engine\_rex/TileNode.cpp)\<close>

text \<open>
  The development embeds the quadtree node of the terrain engine: the per-tile render
  model (rendering passes and shared samplers with their texture matrices), the
  construction of a tile from its parent, merging of loaded data, re-inheritance of
  parent data, dormancy, the dirty flag, load priorities and the cull traversal.

  Conventions. A \<open>ref_ptr\<close> that may be null is an \<open>option\<close>. The single and double
  precision numbers of the source are idealised as \<open>real\<close> where they are only stored,
  compared or multiplied by the constants 0, 0.5 and 1 (matrices, pixel sizes); the
  elapsed time of the dormancy test and the load priority are computed with every
  operation rounded to its type. Unsigned frame counters are 32-bit words, so
  that their subtraction wraps as in the source. Fields keep their source names without
  the leading underscore. Shader uniforms (\<open>_tileKeyValue\<close>, \<open>_morphConstants\<close>), GL
  object management, the elevation raster cached in the surface node and the normal-map
  stitching of pixel data are not part of the tile-tree state modelled here; a call that
  dereferences a null pointer on its way there fails all the same.
\<close>

subsection \<open>osg::Matrixf\<close>

text \<open>
  A 4x4 matrix, written row by row as the constructor of the source takes its sixteen
  arguments. \<open>preMult m other\<close> is \<open>m.preMult(other)\<close>: the receiver becomes
  \<open>other * m\<close>, each entry an inner product of a row of \<open>other\<close> with a column of \<open>m\<close>.
\<close>

datatype Matrixf = Matrixf
  real real real real
  real real real real
  real real real real
  real real real real

definition identity :: Matrixf where
  "identity = Matrixf 1 0 0 0  0 1 0 0  0 0 1 0  0 0 0 1"

definition isIdentity :: "Matrixf \<Rightarrow> bool" where
  "isIdentity m = (m = identity)"

fun preMult :: "Matrixf \<Rightarrow> Matrixf \<Rightarrow> Matrixf" where
  "preMult (Matrixf b00 b01 b02 b03  b10 b11 b12 b13  b20 b21 b22 b23  b30 b31 b32 b33)
           (Matrixf a00 a01 a02 a03  a10 a11 a12 a13  a20 a21 a22 a23  a30 a31 a32 a33) =
     Matrixf
       (a00*b00 + a01*b10 + a02*b20 + a03*b30) (a00*b01 + a01*b11 + a02*b21 + a03*b31)
       (a00*b02 + a01*b12 + a02*b22 + a03*b32) (a00*b03 + a01*b13 + a02*b23 + a03*b33)
       (a10*b00 + a11*b10 + a12*b20 + a13*b30) (a10*b01 + a11*b11 + a12*b21 + a13*b31)
       (a10*b02 + a11*b12 + a12*b22 + a13*b32) (a10*b03 + a11*b13 + a12*b23 + a13*b33)
       (a20*b00 + a21*b10 + a22*b20 + a23*b30) (a20*b01 + a21*b11 + a22*b21 + a23*b31)
       (a20*b02 + a21*b12 + a22*b22 + a23*b32) (a20*b03 + a21*b13 + a22*b23 + a23*b33)
       (a30*b00 + a31*b10 + a32*b20 + a33*b30) (a30*b01 + a31*b11 + a32*b21 + a33*b31)
       (a30*b02 + a31*b12 + a32*b22 + a33*b32) (a30*b03 + a31*b13 + a32*b23 + a33*b33)"

text \<open>Scale and bias matrices, one for each TileKey quadrant (TileNode.cpp, lines 57-64).\<close>

definition scaleBias :: "nat \<Rightarrow> Matrixf" where
  "scaleBias quadrant =
     [ Matrixf (1/2) 0 0 0  0 (1/2) 0 0  0 0 1 0  0     (1/2) 0 1,
       Matrixf (1/2) 0 0 0  0 (1/2) 0 0  0 0 1 0  (1/2) (1/2) 0 1,
       Matrixf (1/2) 0 0 0  0 (1/2) 0 0  0 0 1 0  0     0     0 1,
       Matrixf (1/2) 0 0 0  0 (1/2) 0 0  0 0 1 0  (1/2) 0     0 1 ] ! quadrant"

subsection \<open>Floating-point rounding\<close>

text \<open>
  The values of the types float and double are the reals with a significand of 24 and
  of 53 bits; an operation on them yields the exact result rounded to the nearest such
  value, a tie going to the even significand (IEEE 754, the default rounding). The
  exponent range is not limited here: overflow to infinity and subnormal numbers are
  outside the model.
\<close>

definition roundHalfEven :: "real \<Rightarrow> int" where
  "roundHalfEven z =
     (let f = \<lfloor>z\<rfloor>; r = z - of_int f in
      if r < 1/2 then f
      else if 1/2 < r then f + 1
      else if even f then f else f + 1)"

definition exponent :: "real \<Rightarrow> int" where
  "exponent x = \<lfloor>log 2 \<bar>x\<bar>\<rfloor>"

definition roundTo :: "nat \<Rightarrow> real \<Rightarrow> real" where
  "roundTo p x =
     (if x = 0 then 0
      else (let ulp = 2 powi (exponent x - int p + 1)
            in ulp * of_int (roundHalfEven (x / ulp))))"

definition toFloat :: "real \<Rightarrow> real" where
  "toFloat x = roundTo 24 x"

definition toDouble :: "real \<Rightarrow> real" where
  "toDouble x = roundTo 53 x"

subsection \<open>Tile keys\<close>

text \<open>
  Modelled from the spec: the class TileKey is not among the sources. A key is the
  triple (level of detail, column, row); its four child keys are
  (level+1, 2*col+{0,1}, 2*row+{0,1}) in quadrant order 0..3 = NW, NE, SW, SE, and the
  quadrant of a key is its position among the children of its parent key.
\<close>

record TileKey =
  LOD :: nat
  tileX :: nat
  tileY :: nat

definition createChildKey :: "TileKey \<Rightarrow> nat \<Rightarrow> TileKey" where
  "createChildKey k quadrant =
     \<lparr> LOD = LOD k + 1,
       tileX = 2 * tileX k + (if quadrant = 1 \<or> quadrant = 3 then 1 else 0),
       tileY = 2 * tileY k + (if quadrant = 2 \<or> quadrant = 3 then 1 else 0) \<rparr>"

definition getQuadrant :: "TileKey \<Rightarrow> nat" where
  "getQuadrant k =
     (if LOD k = 0 then 0
      else if even (tileX k) \<and> even (tileY k) then 0
      else if even (tileX k) then 2
      else if even (tileY k) then 1
      else 3)"

subsection \<open>Samplers, rendering passes, render model\<close>

type_synonym UID = int
type_synonym Texture = nat

record Sampler =
  texture :: "Texture option"
  matrix :: Matrixf

text \<open>
  Modelled from the spec: the headers declaring Sampler, RenderingPass, the render model
  and SamplerBinding are not among the sources. The default sampler has no texture and
  an identity matrix; the named samplers of a pass are indexed by the usage enumeration
  of SamplerBinding, whose first entries are the color and color-parent samplers of a
  pass, followed by the shared elevation and normal samplers; further shared layers
  start at index SHARED.
\<close>

definition defaultSampler :: Sampler where
  "defaultSampler = \<lparr> texture = None, matrix = identity \<rparr>"

text \<open>
  Modelled from the spec: the array type of the samplers is not among the sources. Its
  writable index operator extends the array with default samplers when the index is at
  or beyond the end, so that a write such as \<open>_sharedSamplers[ELEVATION] = ...\<close> on a
  tile that has no shared samplers yet lands.
\<close>

definition autoSet :: "Sampler list \<Rightarrow> nat \<Rightarrow> Sampler \<Rightarrow> Sampler list" where
  "autoSet xs i v =
     (if i < length xs then xs [i := v]
      else xs @ replicate (i - length xs) defaultSampler @ [v])"

definition COLOR :: nat where "COLOR = 0"
definition COLOR_PARENT :: nat where "COLOR_PARENT = 1"
definition ELEVATION :: nat where "ELEVATION = 2"
definition SHARED :: nat where "SHARED = 4"

record SamplerBinding =
  isActive :: bool
  bindingSourceUID :: "UID option"

type_synonym RenderBindings = "SamplerBinding list"

record RenderingPass =
  sourceUID :: UID
  samplers :: "Sampler list"

text \<open>
  Modelled from the spec: a freshly added pass belongs to no layer yet (source UID -1)
  and holds default samplers for the color and color-parent usages.
\<close>

definition newPass :: RenderingPass where
  "newPass = \<lparr> sourceUID = - 1, samplers = replicate (COLOR_PARENT + 1) defaultSampler \<rparr>"

record RenderModel =
  passes :: "RenderingPass list"
  sharedSamplers :: "Sampler list"

text \<open>
  Modelled from the spec: \<open>getPass\<close> finds the pass of a layer by the layer's identity
  (the first pass with that source UID, as an index into the passes), \<open>addPass\<close> appends
  a fresh pass at the end of the stacking order.
\<close>

fun getPassFrom :: "nat \<Rightarrow> RenderingPass list \<Rightarrow> UID \<Rightarrow> nat option" where
  "getPassFrom i [] uid = None"
| "getPassFrom i (p # ps) uid = (if sourceUID p = uid then Some i else getPassFrom (Suc i) ps uid)"

definition getPass :: "RenderModel \<Rightarrow> UID \<Rightarrow> nat option" where
  "getPass rm uid = getPassFrom 0 (passes rm) uid"

definition addPass :: "RenderModel \<Rightarrow> RenderModel" where
  "addPass rm = rm \<lparr> passes := passes rm @ [newPass] \<rparr>"

type_synonym frame = "32 word"

subsection \<open>The engine context\<close>

text \<open>
  The part of EngineContext that TileNode.cpp reads: the render bindings, the terrain
  options, the selection info (number of LODs and the visibility range of LOD 0) and the
  geometry pool, of which only the emptiness of the pooled geometry of a key matters.
\<close>

datatype RangeMode = DISTANCE_FROM_EYE_POINT | PIXEL_SIZE_ON_SCREEN

record EngineContext =
  renderBindings :: RenderBindings
  normalizeEdges :: bool
  optMinExpiryFrames :: "frame option"
  optMinExpiryTime :: "real option"
  progressive :: bool
  highResolutionFirst :: bool
  rangeMode :: RangeMode
  tilePixelSize :: real
  numLODs :: nat
  visibilityRange :: real
  pooledGeometryEmpty :: "TileKey \<Rightarrow> bool"

subsection \<open>The tile node\<close>

record FrameStamp =
  frameNumber :: frame
  referenceTime :: real

text \<open>
  The surface node houses the drawable of the tile's key; the copy of the elevation
  raster that it caches for bounding boxes and intersections is not modelled. The load
  request carries the layer filter.
\<close>

datatype SurfaceNode = SurfaceNode TileKey

record LoadTileData =
  requestKey :: TileKey
  filterLayers :: "UID set"

record TileData =
  key :: TileKey
  dirty :: bool
  childrenReady :: bool
  minExpiryTime :: real
  minExpiryFrames :: frame
  lastTraversalTime :: real
  lastTraversalFrame :: frame
  lastAcceptSurfaceFrame :: frame
  stitchNormalMap :: bool
  isEmpty :: bool
  renderModel :: RenderModel
  surface :: "SurfaceNode option"
  loadRequest :: "LoadTileData option"
  newLayers :: "UID set"
  nodeContext :: "EngineContext option"

text \<open>The constructor \<open>TileNode::TileNode()\<close> (lines 67-80).\<close>

definition TileNode_new :: TileData where
  "TileNode_new =
     \<lparr> key = \<lparr> LOD = 0, tileX = 0, tileY = 0 \<rparr>,
       dirty = False, childrenReady = False,
       minExpiryTime = 0, minExpiryFrames = 0,
       lastTraversalTime = 0, lastTraversalFrame = 0, lastAcceptSurfaceFrame = 0,
       stitchNormalMap = False, isEmpty = False,
       renderModel = \<lparr> passes = [], sharedSamplers = [] \<rparr>,
       surface = None, loadRequest = None, newLayers = {}, nodeContext = None \<rparr>"

text \<open>A node owns its child nodes (the children of the scene-graph group).\<close>

datatype TileNode = TileNode (self: TileData) (children: "TileNode list")

subsection \<open>isDormant (lines 248-258)\<close>

text \<open>
  The frame numbers are unsigned and their difference wraps; the times are doubles and
  their difference is rounded to a double.
\<close>

definition minMinExpiryFrames :: frame where
  "minMinExpiryFrames = 3"

definition isDormant :: "TileData \<Rightarrow> FrameStamp option \<Rightarrow> bool" where
  "isDormant n fs =
     (case fs of
        None \<Rightarrow> False
      | Some f \<Rightarrow>
          frameNumber f - lastTraversalFrame n > max (minExpiryFrames n) minMinExpiryFrames \<and>
          toDouble (referenceTime f - lastTraversalTime n) > minExpiryTime n)"

subsection \<open>setDirty (lines 290-302)\<close>

text \<open>
  The load request is dereferenced only when the flag is cleared while new layers are
  pending; a node without a load request fails there (a null dereference).
\<close>

datatype error = NullPointer

definition setDirty :: "bool \<Rightarrow> TileData \<Rightarrow> error + TileData" where
  "setDirty val n =
     (let n1 = n \<lparr> dirty := val \<rparr> in
      if dirty n1 = False \<and> newLayers n1 \<noteq> {} then
        (case loadRequest n1 of
           None \<Rightarrow> Inl NullPointer
         | Some r \<Rightarrow>
             Inr (n1 \<lparr> loadRequest := Some (r \<lparr> filterLayers := newLayers n1 \<rparr>),
                       newLayers := {},
                       dirty := True \<rparr>))
      else Inr n1)"

subsection \<open>setElevationRaster (lines 260-288)\<close>

text \<open>
  The call compares the image and the matrix with those of the surface node:
  \<open>getElevationRaster\<close> and \<open>getElevationMatrix\<close> dereference \<open>_surface\<close>, so on a node
  without a surface the call fails. The raster that it stores is kept in the surface
  node (and the patch) and leaves the state modelled here as it is.
\<close>

definition setElevationRaster :: "TileData \<Rightarrow> error + TileData" where
  "setElevationRaster this =
     (case surface this of
        None \<Rightarrow> Inl NullPointer
      | Some sf \<Rightarrow> Inr this)"

text \<open>
  What a call does outside the node it runs on: debug log lines, registration in the
  live-tile registry, notifications of the terrain, acceptance of a surface by the
  culler, creation of child tiles, and load requests handed to the loader with their
  priority.
\<close>

datatype event =
    DebugTileIsEmpty TileKey
  | DebugNotify TileKey
  | LiveTilesAdd TileKey
  | NotifyTileAdded TileKey
  | AcceptSurface TileKey
  | CreateChildren TileKey
  | LoaderLoad TileKey real

subsection \<open>create (lines 82-233)\<close>

definition scaleBiasSampler :: "nat \<Rightarrow> Sampler \<Rightarrow> Sampler" where
  "scaleBiasSampler quadrant s = s \<lparr> matrix := preMult (matrix s) (scaleBias quadrant) \<rparr>"

text \<open>The body of the loop over the parent's passes (lines 178-196).\<close>

definition inheritPass :: "RenderBindings \<Rightarrow> nat \<Rightarrow> RenderingPass \<Rightarrow> RenderingPass" where
  "inheritPass bindings quadrant parentPass =
     (let samplers1 = map (scaleBiasSampler quadrant) (samplers parentPass);
          samplers2 = (if isActive (bindings ! COLOR_PARENT)
                       then samplers1 [COLOR_PARENT := samplers1 ! COLOR]
                       else samplers1)
      in parentPass \<lparr> samplers := samplers2 \<rparr>)"

text \<open>The block run for a non-null parent (lines 168-219), on the render model.\<close>

definition inheritRenderModel ::
    "RenderBindings \<Rightarrow> nat \<Rightarrow> RenderModel \<Rightarrow> RenderModel \<Rightarrow> RenderModel" where
  "inheritRenderModel bindings quadrant parentModel myModel =
     \<lparr> passes = passes myModel @ map (inheritPass bindings quadrant) (passes parentModel),
       sharedSamplers = map (scaleBiasSampler quadrant) (sharedSamplers parentModel) \<rparr>"

definition create ::
    "TileKey \<Rightarrow> TileData option \<Rightarrow> EngineContext option \<Rightarrow> TileData
       \<Rightarrow> error + (TileData \<times> event list)" where
  "create k parent context this =
     (case context of
        None \<Rightarrow> Inr (this, [])
      | Some ctx \<Rightarrow>
          let n1 = this \<lparr> nodeContext := Some ctx, key := k \<rparr> in
          if pooledGeometryEmpty ctx k then
            Inr (n1 \<lparr> isEmpty := True \<rparr>, [DebugTileIsEmpty k])
          else
            let n2 = n1 \<lparr> surface := Some (SurfaceNode k),
                          loadRequest := Some \<lparr> requestKey = k, filterLayers = {} \<rparr>,
                          stitchNormalMap := (normalizeEdges ctx = True) \<rparr>;
                n3 = (case parent of
                        None \<Rightarrow> n2
                      | Some p \<Rightarrow>
                          n2 \<lparr> renderModel :=
                                 inheritRenderModel (renderBindings ctx) (getQuadrant (key n2))
                                   (renderModel p) (renderModel n2) \<rparr>)
            in (case setDirty True n3 of
                  Inl e \<Rightarrow> Inl e
                | Inr n4 \<Rightarrow> Inr (n4, [LiveTilesAdd k, DebugNotify k, NotifyTileAdded k])))"

subsection \<open>createChildren (lines 554-579) and removeSubTiles (lines 990-995)\<close>

definition newChild :: "EngineContext \<Rightarrow> TileData" where
  "newChild context =
     (let node = TileNode_new;
          node1 = (case optMinExpiryFrames context of
                     None \<Rightarrow> node | Some f \<Rightarrow> node \<lparr> minExpiryFrames := f \<rparr>);
          node2 = (case optMinExpiryTime context of
                     None \<Rightarrow> node1 | Some t \<Rightarrow> node1 \<lparr> minExpiryTime := t \<rparr>)
      in node2)"

fun createChildrenLoop ::
    "EngineContext \<Rightarrow> nat list \<Rightarrow> TileNode \<Rightarrow> event list \<Rightarrow> error + (TileNode \<times> event list)" where
  "createChildrenLoop context [] n ev = Inr (n, ev)"
| "createChildrenLoop context (quadrant # rest) (TileNode this cs) ev =
     (case create (createChildKey (key this) quadrant) (Some this) (Some context)
             (newChild context) of
        Inl e \<Rightarrow> Inl e
      | Inr (node, ev') \<Rightarrow>
          createChildrenLoop context rest (TileNode this (cs @ [TileNode node []])) (ev @ ev'))"

definition createChildren :: "EngineContext \<Rightarrow> TileNode \<Rightarrow> error + (TileNode \<times> event list)" where
  "createChildren context n = createChildrenLoop context [0, 1, 2, 3] n []"

definition removeSubTiles :: "TileNode \<Rightarrow> TileNode" where
  "removeSubTiles n = TileNode ((self n) \<lparr> childrenReady := False \<rparr>) []"

definition getNumChildren :: "TileNode \<Rightarrow> nat" where
  "getNumChildren n = length (children n)"

subsection \<open>The tile model handed to merge\<close>

text \<open>
  The result of a load: color layers (image layers with a texture and a matrix, or other
  color layers known by their layer only; a null entry or a null layer is
  \<open>TerrainTileColorLayerModel None\<close>), the elevation and normal models with their
  textures, and the shared image layers.
\<close>

record ImageLayerModel =
  imageLayerUID :: UID
  getTexture :: "Texture option"
  getMatrix :: Matrixf

datatype ColorLayerModel =
    TerrainTileImageLayerModel ImageLayerModel
  | TerrainTileColorLayerModel "UID option"


subsection \<open>refreshInheritedData (lines 811-940)\<close>



text \<open>
  One iteration of the loop over the shared samplers (lines 905-922). A re-inherited
  elevation sampler with a texture is handed to \<open>setElevationRaster\<close>, which fails on
  a node without a surface; a failure ends the loop and the call.
\<close>

definition refreshSharedSampler ::
    "TileData \<Rightarrow> nat \<Rightarrow> Sampler list \<Rightarrow> nat \<Rightarrow> error + (Sampler list \<times> nat)
       \<Rightarrow> error + (Sampler list \<times> nat)" where
  "refreshSharedSampler this quadrant parentSharedSamplers s st =
     (case st of
        Inl e \<Rightarrow> Inl e
      | Inr (mySharedSamplers, changes) \<Rightarrow>
          (let mySampler = mySharedSamplers ! s in
           if texture mySampler = None \<or> \<not> isIdentity (matrix mySampler) then
             (let parentSampler = parentSharedSamplers ! s;
                  inherited = \<lparr> texture = texture parentSampler,
                                matrix = preMult (matrix parentSampler) (scaleBias quadrant) \<rparr>
              in if s = ELEVATION \<and> texture inherited \<noteq> None then
                   (case setElevationRaster this of
                      Inl e \<Rightarrow> Inl e
                    | Inr this' \<Rightarrow> Inr (mySharedSamplers [s := inherited], changes + 1))
                 else Inr (mySharedSamplers [s := inherited], changes + 1))
           else Inr (mySharedSamplers, changes)))"




subsection \<open>merge (lines 581-771)\<close>

definition setPassSampler :: "nat \<Rightarrow> nat \<Rightarrow> Sampler \<Rightarrow> RenderModel \<Rightarrow> RenderModel" where
  "setPassSampler i s v rm =
     rm \<lparr> passes := (passes rm)
            [i := (passes rm ! i) \<lparr> samplers := autoSet (samplers (passes rm ! i)) s v \<rparr>] \<rparr>"

definition setLayer :: "nat \<Rightarrow> UID \<Rightarrow> RenderModel \<Rightarrow> RenderModel" where
  "setLayer i uid rm = rm \<lparr> passes := (passes rm) [i := (passes rm ! i) \<lparr> sourceUID := uid \<rparr>] \<rparr>"

text \<open>
  One iteration of the loop over the color layers (lines 590-645). The push of a
  render-to-texture node to the tile rasterizer leaves the render model alone and is
  not modelled.
\<close>

definition mergeColorLayer :: "RenderBindings \<Rightarrow> ColorLayerModel \<Rightarrow> RenderModel \<Rightarrow> RenderModel" where
  "mergeColorLayer bindings layer rm =
     (case layer of
        TerrainTileImageLayerModel model \<Rightarrow>
          (case getTexture model of
             None \<Rightarrow> rm
           | Some tex \<Rightarrow>
               (case getPass rm (imageLayerUID model) of
                  Some i \<Rightarrow>
                    setPassSampler i COLOR \<lparr> texture = Some tex, matrix = getMatrix model \<rparr> rm
                | None \<Rightarrow>
                    (let i = length (passes rm);
                         rm1 = setLayer i (imageLayerUID model) (addPass rm);
                         rm2 = (if isActive (bindings ! COLOR_PARENT)
                                then setPassSampler i COLOR_PARENT
                                       \<lparr> texture = Some tex, matrix = identity \<rparr> rm1
                                else rm1)
                     in setPassSampler i COLOR
                          \<lparr> texture = Some tex, matrix = getMatrix model \<rparr> rm2)))
      | TerrainTileColorLayerModel l \<Rightarrow>
          (case l of
             None \<Rightarrow> rm
           | Some uid \<Rightarrow>
               (case getPass rm uid of
                  Some i \<Rightarrow> rm
                | None \<Rightarrow> setLayer (length (passes rm)) uid (addPass rm))))"

text \<open>The elevation and normal blocks (lines 697-726) write one shared sampler each.\<close>

definition mergeShared :: "RenderBindings \<Rightarrow> nat \<Rightarrow> Texture option option \<Rightarrow> RenderModel \<Rightarrow> RenderModel \<times> bool" where
  "mergeShared bindings usage m rm =
     (case m of
        Some (Some tex) \<Rightarrow>
          if isActive (bindings ! usage)
          then (rm \<lparr> sharedSamplers :=
                        autoSet (sharedSamplers rm) usage
                          \<lparr> texture = Some tex, matrix = identity \<rparr> \<rparr>, True)
          else (rm, False)
      | _ \<Rightarrow> (rm, False))"

text \<open>One iteration of the loop over the other shared layers (lines 729-750).\<close>

definition mergeSharedLayer :: "RenderBindings \<Rightarrow> ImageLayerModel \<Rightarrow> RenderModel \<Rightarrow> RenderModel" where
  "mergeSharedLayer bindings layerModel rm =
     (case getTexture layerModel of
        None \<Rightarrow> rm
      | Some tex \<Rightarrow>
          (case find (\<lambda>i. isActive (bindings ! i) \<and>
                           bindingSourceUID (bindings ! i) = Some (imageLayerUID layerModel))
                  [SHARED ..< length bindings] of
             None \<Rightarrow> rm
           | Some bindingIndex \<Rightarrow>
               rm \<lparr> sharedSamplers :=
                      autoSet (sharedSamplers rm) bindingIndex
                        \<lparr> texture = Some tex, matrix = identity \<rparr> \<rparr>))"



subsection \<open>load (lines 942-968)\<close>

text \<open>
  The priority computed in lines 946-961 from the distance to the view point (a float).
  The LOD priority is an int converted to float; the distance priority is computed in
  double (the visibility range is a double) and stored in a float; their sum is a float.
\<close>

definition loadPriority :: "EngineContext \<Rightarrow> TileKey \<Rightarrow> real \<Rightarrow> real" where
  "loadPriority ctx k distance =
     (let lod = int (LOD k);
          numLods = int (numLODs ctx);
          lodPriority = (if highResolutionFirst ctx = False
                         then toFloat (of_int (numLods - lod)) else toFloat (of_int lod));
          distPriority = toFloat (toDouble (1 - toDouble (distance / visibilityRange ctx)))
      in toFloat (lodPriority + distPriority))"

subsection \<open>The cull traversal (lines 320-531)\<close>

text \<open>
  The culler of one cull traversal. What it computes from the geometry of a tile
  (horizon and frustum tests, pixel sizes, the sphere test of the child boxes, the
  distance of the bound's centre to the view point) depends on the view, and within one
  traversal on the tile only; these are functions of the tile key. The camera is its
  reference frame, if there is a camera.
\<close>

datatype ReferenceFrame = RELATIVE_RF | ABSOLUTE_RF | ABSOLUTE_RF_INHERIT_VIEWPOINT

record TerrainCuller =
  getEngineContext :: EngineContext
  getFrameStamp :: FrameStamp
  getCamera :: "ReferenceFrame option"
  stealth :: bool
  isCulled :: "TileKey \<Rightarrow> bool"
  isVisibleFrom :: "TileKey \<Rightarrow> bool"
  computeRangeCallback :: "(TileKey \<Rightarrow> real) option"
  clampedPixelSize :: "TileKey \<Rightarrow> real"
  anyChildBoxIntersectsSphere :: "TileKey \<Rightarrow> bool"
  getDistanceToViewPoint :: "TileKey \<Rightarrow> real"

definition load :: "TerrainCuller \<Rightarrow> TileData \<Rightarrow> error + event list" where
  "load culler this =
     (case nodeContext this of
        None \<Rightarrow> Inl NullPointer
      | Some ctx \<Rightarrow>
          Inr [LoaderLoad (key this)
                 (loadPriority ctx (key this) (getDistanceToViewPoint culler (key this)))])"

definition shouldSubDivide :: "TerrainCuller \<Rightarrow> TileData \<Rightarrow> bool" where
  "shouldSubDivide culler this =
     (let currLOD = LOD (key this); ctx = getEngineContext culler in
      if rangeMode ctx = PIXEL_SIZE_ON_SCREEN then
        (let pixelSize0 = (case computeRangeCallback culler of
                             None \<Rightarrow> - 1 | Some f \<Rightarrow> f (key this));
             pixelSize = (if pixelSize0 \<le> 0 then clampedPixelSize culler (key this)
                          else pixelSize0)
         in pixelSize > tilePixelSize ctx * 4)
      else if currLOD < numLODs ctx \<and> currLOD \<noteq> numLODs ctx - 1 then
        anyChildBoxIntersectsSphere culler (key this)
      else False)"

text \<open>
  A child accepts the culler by being traversed. The traversal of a child may not return
  (\<open>None\<close>) or fail; \<open>acceptSubTiles\<close> visits the given children in order.
\<close>

type_synonym 'a outcome = "(error + 'a) option"

fun acceptSubTiles ::
    "(TileNode \<Rightarrow> (TileNode \<times> event list) outcome) \<Rightarrow> TileNode list
       \<Rightarrow> (TileNode list \<times> event list) outcome" where
  "acceptSubTiles accept [] = Some (Inr ([], []))"
| "acceptSubTiles accept (c # cs) =
     (case accept c of
        None \<Rightarrow> None
      | Some (Inl e) \<Rightarrow> Some (Inl e)
      | Some (Inr (c', ev)) \<Rightarrow>
          (case acceptSubTiles accept cs of
             None \<Rightarrow> None
           | Some (Inl e) \<Rightarrow> Some (Inl e)
           | Some (Inr (cs', ev')) \<Rightarrow> Some (Inr (c' # cs', ev @ ev'))))"

text \<open>
  The block of lines 423-439: under the node's mutex, children are created if they are
  not ready, and the node may then not load data in this frame.
\<close>

definition cullCreateChildren ::
    "TerrainCuller \<Rightarrow> bool \<Rightarrow> bool \<Rightarrow> TileNode \<Rightarrow> error + (TileNode \<times> event list \<times> bool)" where
  "cullCreateChildren culler canCreateChildren canLoadData n =
     (if \<not> childrenReady (self n) \<and> canCreateChildren then
        (case createChildren (getEngineContext culler) n of
           Inl e \<Rightarrow> Inl e
         | Inr (n1, ev) \<Rightarrow>
             Inr (TileNode ((self n1) \<lparr> childrenReady := True \<rparr>) (children n1),
                  CreateChildren (key (self n)) # ev, False))
      else Inr (n, [], canLoadData))"

text \<open>The tail of cull (lines 463-476): accept the surface, then try to load.\<close>

definition cullSurfaceAndLoad ::
    "TerrainCuller \<Rightarrow> bool \<Rightarrow> bool \<Rightarrow> TileNode \<Rightarrow> event list
       \<Rightarrow> (bool \<times> TileNode \<times> event list) outcome" where
  "cullSurfaceAndLoad culler canAcceptSurface canLoadData n ev =
     (let this = self n;
          this1 = (if canAcceptSurface
                   then this \<lparr> lastAcceptSurfaceFrame := frameNumber (getFrameStamp culler) \<rparr>
                   else this);
          ev1 = (if canAcceptSurface then ev @ [AcceptSurface (key this)] else ev)
      in if dirty this1 \<and> canLoadData then
           (case load culler this1 of
              Inl e \<Rightarrow> Some (Inl e)
            | Inr evl \<Rightarrow> Some (Inr (True, TileNode this1 (children n), ev1 @ evl)))
         else Some (Inr (True, TileNode this1 (children n), ev1)))"

definition cull ::
    "(TileNode \<Rightarrow> (TileNode \<times> event list) outcome) \<Rightarrow> TerrainCuller \<Rightarrow> TileNode
       \<Rightarrow> (bool \<times> TileNode \<times> event list) outcome" where
  "cull accept culler n =
     (let this = self n; ctx = getEngineContext culler in
      case surface this of
        None \<Rightarrow> Some (Inl NullPointer)
      | Some sf \<Rightarrow>
          if \<not> isVisibleFrom culler (key this) then Some (Inr (False, n, []))
          else
            (let childrenInRange = shouldSubDivide culler this;
                 canCreateChildren0 = childrenInRange;
                 canCreateChildren1 = (if dirty this \<and> progressive ctx = True
                                       then False else canCreateChildren0);
                 inheritViewpoint = (getCamera culler = Some ABSOLUTE_RF_INHERIT_VIEWPOINT);
                 canCreateChildren = (if inheritViewpoint then False else canCreateChildren1);
                 canLoadData = (if inheritViewpoint then False else True)
             in if childrenInRange then
                  (case cullCreateChildren culler canCreateChildren canLoadData n of
                     Inl e \<Rightarrow> Some (Inl e)
                   | Inr (n1, ev1, canLoadData1) \<Rightarrow>
                       if childrenReady (self n1) then
                         (case acceptSubTiles accept (take 4 (children n1)) of
                            None \<Rightarrow> None
                          | Some (Inl e) \<Rightarrow> Some (Inl e)
                          | Some (Inr (cs, ev2)) \<Rightarrow>
                              cullSurfaceAndLoad culler False canLoadData1
                                (TileNode (self n1) (cs @ drop 4 (children n1))) (ev1 @ ev2))
                       else cullSurfaceAndLoad culler True canLoadData1 n1 ev1)
                else cullSurfaceAndLoad culler True canLoadData n []))"

definition accept_cull ::
    "(TileNode \<Rightarrow> (TileNode \<times> event list) outcome) \<Rightarrow> TerrainCuller \<Rightarrow> TileNode
       \<Rightarrow> (bool \<times> TileNode \<times> event list) outcome" where
  "accept_cull accept culler n =
     (let this = (self n) \<lparr> lastTraversalFrame := frameNumber (getFrameStamp culler),
                             lastTraversalTime := referenceTime (getFrameStamp culler) \<rparr>;
          n1 = TileNode this (children n)
      in if \<not> isCulled culler (key this) then cull accept culler n1
         else Some (Inr (False, n1, [])))"

definition cull_stealth ::
    "(TileNode \<Rightarrow> (TileNode \<times> event list) outcome) \<Rightarrow> TerrainCuller \<Rightarrow> TileNode
       \<Rightarrow> (bool \<times> TileNode \<times> event list) outcome" where
  "cull_stealth accept culler n =
     (let this = self n; frame = frameNumber (getFrameStamp culler) in
      if frame - lastAcceptSurfaceFrame this < 2 then
        (case surface this of
           None \<Rightarrow> Some (Inl NullPointer)
         | Some sf \<Rightarrow> Some (Inr (False, n, [AcceptSurface (key this)])))
      else if childrenReady this then
        (case acceptSubTiles accept (take 4 (children n)) of
           None \<Rightarrow> None
         | Some (Inl e) \<Rightarrow> Some (Inl e)
         | Some (Inr (cs, ev)) \<Rightarrow>
             Some (Inr (False, TileNode this (cs @ drop 4 (children n)), ev)))
      else Some (Inr (False, n, [])))"

definition accept_cull_stealth ::
    "(TileNode \<Rightarrow> (TileNode \<times> event list) outcome) \<Rightarrow> TerrainCuller \<Rightarrow> TileNode
       \<Rightarrow> (bool \<times> TileNode \<times> event list) outcome" where
  "accept_cull_stealth accept culler n = cull_stealth accept culler n"

text \<open>
  traverse with a cull visitor (lines 515-531). Its result is void: the visibility that
  the accept functions return is dropped. The recursion follows the children, which the
  visit itself may have created, so it is bounded by fuel: \<open>None\<close> says that the fuel
  did not suffice.
\<close>

definition dropVisible :: "(bool \<times> TileNode \<times> event list) outcome \<Rightarrow> (TileNode \<times> event list) outcome" where
  "dropVisible r =
     (case r of
        None \<Rightarrow> None
      | Some (Inl e) \<Rightarrow> Some (Inl e)
      | Some (Inr (visible, n, ev)) \<Rightarrow> Some (Inr (n, ev)))"

primrec traverse :: "nat \<Rightarrow> TerrainCuller \<Rightarrow> TileNode \<Rightarrow> (TileNode \<times> event list) outcome" where
  "traverse 0 = (\<lambda>culler n. None)"
| "traverse (Suc fuel) = (\<lambda>culler n.
     if isEmpty (self n) = False then
       (if stealth culler
        then dropVisible (accept_cull_stealth (traverse fuel culler) culler n)
        else dropVisible (accept_cull (traverse fuel culler) culler n))
     else Some (Inr (n, [])))"

subsection \<open>Notions used to state the properties\<close>

text \<open>
  Where an inherited sampler of a pass takes its data from: the sampler of the same
  usage in the parent's pass, except that with an active color-parent binding the
  color-parent sampler is taken from the color sampler.
\<close>

definition inheritedFrom :: "RenderBindings \<Rightarrow> nat \<Rightarrow> nat" where
  "inheritedFrom bindings s =
     (if s = COLOR_PARENT \<and> isActive (bindings ! COLOR_PARENT) then COLOR else s)"


subsection \<open>Concrete tiles, contexts and tile models\<close>

definition layerA :: UID where
  "layerA = 1"

definition exampleBindings :: "bool \<Rightarrow> RenderBindings" where
  "exampleBindings blend =
     [ \<lparr> isActive = True, bindingSourceUID = None \<rparr>,
       \<lparr> isActive = blend, bindingSourceUID = None \<rparr>,
       \<lparr> isActive = True, bindingSourceUID = None \<rparr>,
       \<lparr> isActive = True, bindingSourceUID = None \<rparr>,
       \<lparr> isActive = True, bindingSourceUID = Some 9 \<rparr> ]"

definition exampleContext :: "bool \<Rightarrow> EngineContext" where
  "exampleContext blend =
     \<lparr> renderBindings = exampleBindings blend, normalizeEdges = False,
       optMinExpiryFrames = None, optMinExpiryTime = None,
       progressive = False, highResolutionFirst = False,
       rangeMode = DISTANCE_FROM_EYE_POINT, tilePixelSize = 256,
       numLODs = 20, visibilityRange = 1000,
       pooledGeometryEmpty = (\<lambda>k. False) \<rparr>"

text \<open>
  A tile with one pass for layer A: its own color texture 0 (identity matrix) and a
  color-parent texture 5 inherited from above (quadrant 0), and five shared samplers.
\<close>

definition exampleParent :: TileData where
  "exampleParent =
     TileNode_new
       \<lparr> renderModel :=
           \<lparr> passes = [ \<lparr> sourceUID = layerA,
                          samplers = [ \<lparr> texture = Some 0, matrix = identity \<rparr>,
                                       \<lparr> texture = Some 5, matrix = scaleBias 0 \<rparr> ] \<rparr> ],
             sharedSamplers = replicate 5 \<lparr> texture = Some 3, matrix = identity \<rparr> \<rparr> \<rparr>"


text \<open>
  A culler of frame 7 that sees every tile and finds the children in range at level 0
  only, with a given camera; a context whose geometry pool yields empty geometry; and a
  root tile that has been created (it has a surface and a load request) and is dirty.
\<close>

definition exampleCuller :: "ReferenceFrame option \<Rightarrow> TerrainCuller" where
  "exampleCuller cam =
     \<lparr> getEngineContext = exampleContext False,
       getFrameStamp = \<lparr> frameNumber = 7, referenceTime = 1 \<rparr>,
       getCamera = cam, stealth = False,
       isCulled = (\<lambda>k. False), isVisibleFrom = (\<lambda>k. True),
       computeRangeCallback = None, clampedPixelSize = (\<lambda>k. 0),
       anyChildBoxIntersectsSphere = (\<lambda>k. LOD k = 0),
       getDistanceToViewPoint = (\<lambda>k. 250) \<rparr>"

definition maskedContext :: EngineContext where
  "maskedContext = (exampleContext False) \<lparr> pooledGeometryEmpty := (\<lambda>k. True) \<rparr>"

definition rootTile :: TileNode where
  "rootTile =
     TileNode (exampleParent \<lparr> dirty := True,
                               surface := Some (SurfaceNode (key exampleParent)),
                               loadRequest := Some \<lparr> requestKey = key exampleParent,
                                                     filterLayers = {} \<rparr>,
                               nodeContext := Some (exampleContext False) \<rparr>) []"

definition emptyTile :: TileNode where
  "emptyTile = TileNode (TileNode_new \<lparr> isEmpty := True \<rparr>) []"

definition exampleRequest :: LoadTileData where
  "exampleRequest = \<lparr> requestKey = \<lparr> LOD = 1, tileX = 0, tileY = 1 \<rparr>, filterLayers = {} \<rparr>"

definition pendingNode :: TileData where
  "pendingNode =
     TileNode_new \<lparr> dirty := True, loadRequest := Some exampleRequest, newLayers := {5, 7} \<rparr>"

definition visitedNode :: TileData where
  "visitedNode =
     TileNode_new \<lparr> minExpiryFrames := 10, minExpiryTime := 2,
                    lastTraversalFrame := 100, lastTraversalTime := 50 \<rparr>"

text \<open>
  A node with the default expiry settings that was last visited at frame 1 and time 0;
  and a node with a time floor of one second that was last visited at frame 0 and at
  time \<open>255 / 2^60\<close>.
\<close>

definition defaultNode :: TileData where
  "defaultNode = TileNode_new \<lparr> lastTraversalFrame := 1 \<rparr>"

definition timedNode :: TileData where
  "timedNode = TileNode_new \<lparr> minExpiryTime := 1, lastTraversalTime := 255 / 2 ^ 60 \<rparr>"



text \<open>
  The tiles of a tree (the keys of its nodes, this node first), its height, and the
  quadtree invariant: a node whose children are ready has four children, any other node
  has none.
\<close>

fun tileKeys :: "TileNode \<Rightarrow> TileKey list" where
  "tileKeys (TileNode d cs) = key d # concat (map tileKeys cs)"

fun height :: "TileNode \<Rightarrow> nat" where
  "height (TileNode d cs) = Suc (fold max (map height cs) 0)"

fun quadtree :: "TileNode \<Rightarrow> bool" where
  "quadtree (TileNode d cs) =
     ((if childrenReady d then length cs = 4 else cs = []) \<and> list_all quadtree cs)"

text \<open>
  Tiles as \<open>create\<close> and \<open>merge\<close> leave them under the example context with an active
  color-parent binding: a created tile with a given key and render model, the pass of
  layer A with its color and color-parent samplers, and a loaded tile model that brings
  a texture for layer A with an identity matrix and nothing else.
\<close>

definition rootKey :: TileKey where
  "rootKey = \<lparr> LOD = 0, tileX = 0, tileY = 0 \<rparr>"









text \<open>
  The example context with a visibility range of 1024.
\<close>

definition rangeContext :: EngineContext where
  "rangeContext = (exampleContext False) \<lparr> visibilityRange := 1024 \<rparr>"

section \<open>Properties\<close>

subsection \<open>Rounding\<close>

text \<open>
  Rounding to a significand of \<open>p\<close> bits is monotone, and it leaves a value with such a
  significand as it is.
\<close>

lemma roundHalfEven_bounds: "\<lfloor>z\<rfloor> \<le> roundHalfEven z \<and> roundHalfEven z \<le> \<lfloor>z\<rfloor> + 1"
  by (simp add: roundHalfEven_def Let_def)

lemma roundHalfEven_of_int [simp]: "roundHalfEven (of_int n) = n"
  by (simp add: roundHalfEven_def)

lemma roundHalfEven_mono:
  assumes "z \<le> w"
  shows "roundHalfEven z \<le> roundHalfEven w"
proof (cases "\<lfloor>z\<rfloor> = \<lfloor>w\<rfloor>")
  case True
  with assms have "z - of_int \<lfloor>z\<rfloor> \<le> w - of_int \<lfloor>w\<rfloor>" by simp
  with True show ?thesis
    by (auto simp: roundHalfEven_def Let_def)
next
  case False
  with assms have "\<lfloor>z\<rfloor> < \<lfloor>w\<rfloor>"
    using floor_mono [of z w] by simp
  then have "\<lfloor>z\<rfloor> + 1 \<le> \<lfloor>w\<rfloor>" by simp
  with roundHalfEven_bounds [of z] roundHalfEven_bounds [of w] show ?thesis
    by linarith
qed

lemma roundHalfEven_ge: "of_int n \<le> z \<Longrightarrow> n \<le> roundHalfEven z"
  using roundHalfEven_mono [of "of_int n" z] by simp

lemma roundHalfEven_le: "z \<le> of_int n \<Longrightarrow> roundHalfEven z \<le> n"
  using roundHalfEven_mono [of z "of_int n"] by simp

lemma two_powr_int: "(2::real) powr (of_int k) = 2 powi k"
  by (rule powr_real_of_int') simp_all

lemma two_powr_int_Suc: "(2::real) powr (of_int k + 1) = 2 powi (k + 1)"
  using two_powr_int [of "k + 1"] by simp

lemma exponent_bounds:
  assumes "x \<noteq> 0"
  shows "2 powi exponent x \<le> \<bar>x\<bar> \<and> \<bar>x\<bar> < 2 powi (exponent x + 1)"
proof -
  have pos: "0 < \<bar>x\<bar>" using assms by simp
  have "\<lfloor>log 2 \<bar>x\<bar>\<rfloor> = exponent x" by (simp add: exponent_def)
  then have "2 powr (of_int (exponent x)) \<le> \<bar>x\<bar> \<and> \<bar>x\<bar> < 2 powr (of_int (exponent x + 1))"
    using floor_log_eq_powr_iff [OF pos, of 2 "exponent x"] by simp
  then show ?thesis
    by (simp add: two_powr_int two_powr_int_Suc)
qed

lemma exponent_unique:
  assumes "2 powi e \<le> \<bar>x\<bar>" and "\<bar>x\<bar> < 2 powi (e + 1)"
  shows "exponent x = e"
proof -
  have pos: "0 < \<bar>x\<bar>"
    using assms(1) zero_less_power_int [of "2::real" e] by linarith
  have "2 powr (of_int e) \<le> \<bar>x\<bar> \<and> \<bar>x\<bar> < 2 powr (of_int (e + 1))"
    using assms by (simp add: two_powr_int two_powr_int_Suc)
  then show ?thesis
    unfolding exponent_def using floor_log_eq_powr_iff [OF pos, of 2 e] by simp
qed

lemma exponent_mono:
  assumes "x \<noteq> 0" and "\<bar>x\<bar> \<le> \<bar>y\<bar>"
  shows "exponent x \<le> exponent y"
proof -
  have "0 < \<bar>x\<bar>" using assms by simp
  with assms(2) have "log 2 \<bar>x\<bar> \<le> log 2 \<bar>y\<bar>" by simp
  then show ?thesis
    unfolding exponent_def by (rule floor_mono)
qed


lemma ulp_scale_low:
  assumes "1 \<le> p"
  shows "2 powi (e - int p + 1) * 2 ^ (p - 1) = (2::real) powi e"
proof -
  have a: "int (p - 1) = int p - 1"
    using assms by simp
  have "(2::real) ^ (p - 1) = 2 powi (int (p - 1))"
    by (simp only: power_int_of_nat)
  then have b: "(2::real) ^ (p - 1) = 2 powi (int p - 1)"
    by (simp only: a)
  have "(2::real) powi ((e - int p + 1) + (int p - 1)) = 2 powi (e - int p + 1) * 2 powi (int p - 1)"
    by (rule power_int_add) simp
  moreover have "(e - int p + 1) + (int p - 1) = e"
    by simp
  ultimately have "(2::real) powi e = 2 powi (e - int p + 1) * 2 powi (int p - 1)"
    by (simp only:)
  then show ?thesis
    by (simp only: b)
qed

lemma ulp_scale_high: "2 powi (e - int p + 1) * 2 ^ p = (2::real) powi (e + 1)"
proof -
  have b: "(2::real) ^ p = 2 powi (int p)"
    by (simp only: power_int_of_nat)
  have "(2::real) powi ((e - int p + 1) + int p) = 2 powi (e - int p + 1) * 2 powi (int p)"
    by (rule power_int_add) simp
  moreover have "(e - int p + 1) + int p = e + 1"
    by simp
  ultimately have "(2::real) powi (e + 1) = 2 powi (e - int p + 1) * 2 powi (int p)"
    by (simp only:)
  then show ?thesis
    by (simp only: b)
qed

lemma roundTo_nonzero:
  "x \<noteq> 0 \<Longrightarrow>
   roundTo p x = 2 powi (exponent x - int p + 1) *
                 of_int (roundHalfEven (x / 2 powi (exponent x - int p + 1)))"
  by (simp add: roundTo_def Let_def)

lemma roundTo_pos_bounds:
  assumes "0 < x" and "1 \<le> p"
  shows "2 powi exponent x \<le> roundTo p x \<and> roundTo p x \<le> 2 powi (exponent x + 1)"
proof -
  let ?e = "exponent x"
  let ?u = "(2::real) powi (?e - int p + 1)"
  have u: "0 < ?u" by simp
  from assms(1) have b: "2 powi ?e \<le> x" "x < 2 powi (?e + 1)"
    using exponent_bounds [of x] by simp_all
  have "of_int (2 ^ (p - 1)) \<le> x / ?u"
    using b(1) u ulp_scale_low [OF assms(2), of ?e] by (simp add: pos_le_divide_eq mult.commute)
  then have lo: "2 ^ (p - 1) \<le> roundHalfEven (x / ?u)"
    by (rule roundHalfEven_ge)
  have "x / ?u \<le> of_int (2 ^ p)"
    using b(2) u ulp_scale_high [of ?e p] by (simp add: pos_divide_le_eq mult.commute)
  then have hi: "roundHalfEven (x / ?u) \<le> 2 ^ p"
    by (rule roundHalfEven_le)
  from lo have "(of_int (2 ^ (p - 1)) :: real) \<le> of_int (roundHalfEven (x / ?u))"
    by (simp only: of_int_le_iff)
  with u have "?u * of_int (2 ^ (p - 1)) \<le> ?u * of_int (roundHalfEven (x / ?u))"
    by (auto intro!: mult_left_mono simp only: less_imp_le)
  moreover from hi have "(of_int (roundHalfEven (x / ?u)) :: real) \<le> of_int (2 ^ p)"
    by (simp only: of_int_le_iff)
  with u have "?u * of_int (roundHalfEven (x / ?u)) \<le> ?u * of_int (2 ^ p)"
    by (auto intro!: mult_left_mono simp only: less_imp_le)
  ultimately have "2 powi ?e \<le> ?u * of_int (roundHalfEven (x / ?u)) \<and>
                   ?u * of_int (roundHalfEven (x / ?u)) \<le> 2 powi (?e + 1)"
    using ulp_scale_low [OF assms(2), of ?e] ulp_scale_high [of ?e p]
    by (simp only: of_int_power of_int_numeral)
  moreover have "roundTo p x = ?u * of_int (roundHalfEven (x / ?u))"
    using assms(1) by (intro roundTo_nonzero) simp
  ultimately show ?thesis
    by (simp only:)
qed

lemma roundTo_neg_bounds:
  assumes "x < 0" and "1 \<le> p"
  shows "- (2 powi (exponent x + 1)) \<le> roundTo p x \<and> roundTo p x \<le> - (2 powi exponent x)"
proof -
  let ?e = "exponent x"
  let ?u = "(2::real) powi (?e - int p + 1)"
  have u: "0 < ?u" by simp
  from assms(1) have b: "2 powi ?e \<le> - x" "- x < 2 powi (?e + 1)"
    using exponent_bounds [of x] by simp_all
  have "x / ?u \<le> of_int (- (2 ^ (p - 1)))"
    using b(1) u ulp_scale_low [OF assms(2), of ?e] by (simp add: pos_divide_le_eq mult.commute)
  then have hi: "roundHalfEven (x / ?u) \<le> - (2 ^ (p - 1))"
    by (rule roundHalfEven_le)
  have "of_int (- (2 ^ p)) \<le> x / ?u"
    using b(2) u ulp_scale_high [of ?e p] by (simp add: pos_le_divide_eq mult.commute)
  then have lo: "- (2 ^ p) \<le> roundHalfEven (x / ?u)"
    by (rule roundHalfEven_ge)
  from hi have "(of_int (roundHalfEven (x / ?u)) :: real) \<le> of_int (- (2 ^ (p - 1)))"
    by (simp only: of_int_le_iff)
  with u have "?u * of_int (roundHalfEven (x / ?u)) \<le> ?u * of_int (- (2 ^ (p - 1)))"
    by (auto intro!: mult_left_mono simp only: less_imp_le)
  moreover from lo have "(of_int (- (2 ^ p)) :: real) \<le> of_int (roundHalfEven (x / ?u))"
    by (simp only: of_int_le_iff)
  with u have "?u * of_int (- (2 ^ p)) \<le> ?u * of_int (roundHalfEven (x / ?u))"
    by (auto intro!: mult_left_mono simp only: less_imp_le)
  ultimately have "- (2 powi (?e + 1)) \<le> ?u * of_int (roundHalfEven (x / ?u)) \<and>
                   ?u * of_int (roundHalfEven (x / ?u)) \<le> - (2 powi ?e)"
    using ulp_scale_low [OF assms(2), of ?e] ulp_scale_high [of ?e p]
    by (simp only: of_int_power of_int_numeral of_int_minus mult_minus_right)
  moreover have "roundTo p x = ?u * of_int (roundHalfEven (x / ?u))"
    using assms(1) by (intro roundTo_nonzero) simp
  ultimately show ?thesis
    by (simp only:)
qed


lemma roundTo_zero [simp]: "roundTo p 0 = 0"
  by (simp add: roundTo_def)

lemma roundTo_same_exponent:
  assumes "x \<noteq> 0" and "y \<noteq> 0" and "exponent x = exponent y" and "x \<le> y"
  shows "roundTo p x \<le> roundTo p y"
proof -
  let ?u = "(2::real) powi (exponent y - int p + 1)"
  have u: "0 < ?u" by simp
  from assms(4) u have "x / ?u \<le> y / ?u"
    by (simp only: divide_right_mono less_imp_le)
  then have "roundHalfEven (x / ?u) \<le> roundHalfEven (y / ?u)"
    by (rule roundHalfEven_mono)
  then have "(of_int (roundHalfEven (x / ?u)) :: real) \<le> of_int (roundHalfEven (y / ?u))"
    by (simp only: of_int_le_iff)
  with u have "?u * of_int (roundHalfEven (x / ?u)) \<le> ?u * of_int (roundHalfEven (y / ?u))"
    by (auto intro!: mult_left_mono simp only: less_imp_le)
  then show ?thesis
    by (simp only: roundTo_nonzero [OF assms(1)] roundTo_nonzero [OF assms(2)] assms(3))
qed

lemma roundTo_mono:
  assumes "1 \<le> p" and "x \<le> y"
  shows "roundTo p x \<le> roundTo p y"
proof -
  have pow: "0 < (2::real) powi k" for k by simp
  consider (zero) "x = 0" "y = 0" | (pos) "0 < x" | (neg) "y < 0" | (mixed) "x \<le> 0" "0 \<le> y" "x < y"
    using assms(2) by linarith
  then show ?thesis
  proof cases
    case zero
    then show ?thesis by simp
  next
    case pos
    with assms(2) have y: "0 < y" by simp
    from pos y assms(2) have "exponent x \<le> exponent y"
      by (intro exponent_mono) simp_all
    then consider "exponent x = exponent y" | "exponent x + 1 \<le> exponent y"
      by linarith
    then show ?thesis
    proof cases
      case 1
      with pos y assms(2) show ?thesis
        by (intro roundTo_same_exponent) simp_all
    next
      case 2
      then have "(2::real) powi (exponent x + 1) \<le> 2 powi exponent y"
        by (intro power_int_increasing) simp_all
      with roundTo_pos_bounds [OF pos assms(1)] roundTo_pos_bounds [OF y assms(1)]
      show ?thesis by linarith
    qed
  next
    case neg
    with assms(2) have x: "x < 0" by simp
    from neg x assms(2) have "exponent y \<le> exponent x"
      by (intro exponent_mono) simp_all
    then consider "exponent x = exponent y" | "exponent y + 1 \<le> exponent x"
      by linarith
    then show ?thesis
    proof cases
      case 1
      with neg x assms(2) show ?thesis
        by (intro roundTo_same_exponent) simp_all
    next
      case 2
      then have "(2::real) powi (exponent y + 1) \<le> 2 powi exponent x"
        by (intro power_int_increasing) simp_all
      with roundTo_neg_bounds [OF x assms(1)] roundTo_neg_bounds [OF neg assms(1)]
      show ?thesis by linarith
    qed
  next
    case mixed
    have "roundTo p x \<le> 0"
    proof (cases "x = 0")
      case True
      then show ?thesis by simp
    next
      case False
      with mixed have "x < 0" by simp
      from roundTo_neg_bounds [OF this assms(1)] pow [of "exponent x"] show ?thesis
        by linarith
    qed
    moreover have "0 \<le> roundTo p y"
    proof (cases "y = 0")
      case True
      then show ?thesis by simp
    next
      case False
      with mixed have "0 < y" by simp
      from roundTo_pos_bounds [OF this assms(1)] pow [of "exponent y"] show ?thesis
        by linarith
    qed
    ultimately show ?thesis by linarith
  qed
qed
lemma two_powi_less_imp:
  assumes "(2::real) powi a < 2 powi b"
  shows "a < b"
proof (rule ccontr)
  assume "\<not> a < b"
  then have "b \<le> a" by simp
  then have "(2::real) powi b \<le> 2 powi a"
    by (intro power_int_increasing) simp_all
  with assms show False by simp
qed

lemma roundTo_integral:
  assumes "x / 2 powi (exponent x - int p + 1) = of_int N"
  shows "roundTo p x = x"
proof (cases "x = 0")
  case True
  then show ?thesis by simp
next
  case False
  let ?u = "(2::real) powi (exponent x - int p + 1)"
  have u: "?u \<noteq> 0" by simp
  have "roundTo p x = ?u * of_int (roundHalfEven (x / ?u))"
    using False by (rule roundTo_nonzero)
  also have "\<dots> = ?u * (x / ?u)"
    by (simp only: assms roundHalfEven_of_int)
  also have "\<dots> = x"
    using u by simp
  finally show ?thesis .
qed

lemma roundTo_exact:
  assumes "\<bar>m\<bar> < 2 ^ p"
  shows "roundTo p (of_int m * 2 powi k) = of_int m * 2 powi k"
proof (cases "m = 0")
  case True
  then show ?thesis by simp
next
  case False
  let ?x = "of_int m * (2::real) powi k"
  let ?e = "exponent ?x"
  have x: "?x \<noteq> 0" using False by simp
  have lo: "2 powi ?e \<le> \<bar>?x\<bar>"
    using exponent_bounds [OF x] by simp
  have "\<bar>of_int m :: real\<bar> < 2 ^ p"
    using assms by (metis of_int_abs of_int_less_iff of_int_numeral of_int_power)
  then have "\<bar>?x\<bar> < 2 ^ p * 2 powi k"
    by (simp add: abs_mult)
  also have "\<dots> = 2 powi (int p + k)"
    by (simp add: power_int_add)
  finally have "(2::real) powi ?e < 2 powi (int p + k)"
    using lo by simp
  then have "?e < int p + k"
    by (rule two_powi_less_imp)
  then have "0 \<le> k - ?e + int p - 1" by simp
  then obtain j :: nat where j: "int j = k - ?e + int p - 1"
    using nonneg_int_cases by metis
  have "k - (?e - int p + 1) = int j"
    using j by simp
  then have "(2::real) powi k / 2 powi (?e - int p + 1) = 2 powi (int j)"
    by (metis power_int_diff zero_neq_numeral)
  then have q: "(2::real) powi k / 2 powi (?e - int p + 1) = 2 ^ j"
    by (simp only: power_int_of_nat)
  have "?x / 2 powi (?e - int p + 1) = of_int m * (2 powi k / 2 powi (?e - int p + 1))"
    by (simp only: times_divide_eq_right)
  also have "\<dots> = of_int (m * 2 ^ j)"
    by (simp only: q of_int_mult of_int_power of_int_numeral)
  finally show ?thesis
    by (rule roundTo_integral)
qed

lemma toFloat_mono: "x \<le> y \<Longrightarrow> toFloat x \<le> toFloat y"
  unfolding toFloat_def by (rule roundTo_mono) simp_all

lemma toDouble_mono: "x \<le> y \<Longrightarrow> toDouble x \<le> toDouble y"
  unfolding toDouble_def by (rule roundTo_mono) simp_all

lemma toDouble_exact: "\<bar>m\<bar> < 2 ^ 53 \<Longrightarrow> toDouble (of_int m * 2 powi k) = of_int m * 2 powi k"
  unfolding toDouble_def by (rule roundTo_exact)

lemma toFloat_exact: "\<bar>m\<bar> < 2 ^ 24 \<Longrightarrow> toFloat (of_int m * 2 powi k) = of_int m * 2 powi k"
  unfolding toFloat_def by (rule roundTo_exact)

lemma toDouble_of_int: "\<bar>m\<bar> < 2 ^ 53 \<Longrightarrow> toDouble (of_int m) = of_int m"
  using toDouble_exact [of m 0] by simp

lemma toFloat_of_int: "\<bar>m\<bar> < 2 ^ 24 \<Longrightarrow> toFloat (of_int m) = of_int m"
  using toFloat_exact [of m 0] by simp

lemma toDouble_pos:
  assumes "0 < x"
  shows "0 < toDouble x"
proof -
  have "(0::real) < 2 powi exponent x" by simp
  moreover have "2 powi exponent x \<le> roundTo 53 x"
    using roundTo_pos_bounds [OF assms, of 53] by simp
  ultimately show ?thesis
    unfolding toDouble_def by linarith
qed

lemma roundTo_eval:
  assumes "2 powi e \<le> \<bar>x\<bar>" and "\<bar>x\<bar> < 2 powi (e + 1)"
  shows "roundTo p x = 2 powi (e - int p + 1) * of_int (roundHalfEven (x / 2 powi (e - int p + 1)))"
proof -
  have e: "exponent x = e"
    using assms by (rule exponent_unique)
  have "0 < \<bar>x\<bar>"
    using assms(1) zero_less_power_int [of "2::real" e] by linarith
  then have "x \<noteq> 0" by simp
  then have "roundTo p x = 2 powi (exponent x - int p + 1) *
               of_int (roundHalfEven (x / 2 powi (exponent x - int p + 1)))"
    by (rule roundTo_nonzero)
  then show ?thesis
    by (simp only: e)
qed

subsection \<open>The dirty flag\<close>

text \<open>
  C10. When new layers are pending, \<open>setDirty(false)\<close> does not leave the node clean: the
  pending layers become the layer filter of the load request, the pending set is
  cleared and the node is dirty again. Without pending layers the flag is cleared, and a
  call that returns leaves the node clean exactly when no layers were pending.
\<close>

theorem setDirty_false_new_layers:
  "(newLayers n \<noteq> {} \<and> loadRequest n = Some r \<longrightarrow>
      setDirty False n =
        Inr (n \<lparr> dirty := True,
                 loadRequest := Some (r \<lparr> filterLayers := newLayers n \<rparr>),
                 newLayers := {} \<rparr>)) \<and>
   (newLayers n = {} \<longrightarrow> setDirty False n = Inr (n \<lparr> dirty := False \<rparr>)) \<and>
   (\<forall>n'. setDirty False n = Inr n' \<longrightarrow> (dirty n' = False \<longleftrightarrow> newLayers n = {}))"
  by (auto simp: setDirty_def Let_def split: option.splits)

theorem setDirty_false_new_layers_witness:
  "newLayers pendingNode \<noteq> {} \<and> loadRequest pendingNode = Some exampleRequest \<and>
   setDirty False pendingNode =
     Inr (pendingNode \<lparr> dirty := True,
              loadRequest := Some (exampleRequest \<lparr> filterLayers := {5, 7} \<rparr>),
              newLayers := {} \<rparr>) \<and>
   newLayers TileNode_new = {} \<and>
   setDirty False TileNode_new = Inr (TileNode_new \<lparr> dirty := False \<rparr>) \<and>
   dirty TileNode_new = False"
  using setDirty_false_new_layers [of pendingNode exampleRequest]
        setDirty_false_new_layers [of TileNode_new exampleRequest]
  by (simp add: pendingNode_def TileNode_new_def)

subsection \<open>Dormancy\<close>

lemma unat_max_frames:
  "unat (max (m :: frame) minMinExpiryFrames) = max (unat m) 3"
  by (simp add: max_def word_le_nat_alt minMinExpiryFrames_def)

lemma isDormant_iff:
  "isDormant n (Some fs) \<longleftrightarrow>
     max (unat (minExpiryFrames n)) 3 < unat (frameNumber fs - lastTraversalFrame n) \<and>
     minExpiryTime n < toDouble (referenceTime fs - lastTraversalTime n)"
  by (simp add: isDormant_def word_less_nat_alt unat_max_frames)

lemma unat_pred_frame:
  assumes "0 < (m :: frame)"
  shows "unat (m - 1) = unat m - 1"
proof -
  from assms have "1 \<le> m"
    by (simp add: word_le_nat_alt word_less_nat_alt)
  then show ?thesis
    by (simp add: unat_sub)
qed

text \<open>
  C6 (as amended). Without a frame stamp a node is not dormant. With one, it is dormant
  exactly when the unsigned 32-bit difference of the frame numbers exceeds the maximum
  of the configured minimum and 3, and the difference of the times, rounded to a double,
  exceeds the configured minimum time. The difference of the frame numbers is the number
  of frames elapsed when the frame stamp is not earlier than the last traversal, and
  \<open>2^32\<close> more than the (negative) difference when it is earlier. A node with a
  configured minimum of at least one frame that was last visited at frame F is not
  dormant at frame F + minFrames - 1; with a minimum of at least 3 (and below the
  largest unsigned number) it is dormant at frame F + minFrames + 1 if the rounded
  elapsed time exceeds the time floor. While the elapsed time is at or below a time
  floor that is a double, the node is not dormant, whatever the frame gap.
\<close>

theorem isDormant_frames_and_time:
  "isDormant n None = False \<and>
   (isDormant n (Some fs) \<longleftrightarrow>
      max (unat (minExpiryFrames n)) 3 < unat (frameNumber fs - lastTraversalFrame n) \<and>
      minExpiryTime n < toDouble (referenceTime fs - lastTraversalTime n)) \<and>
   (lastTraversalFrame n \<le> frameNumber fs \<longrightarrow>
      unat (frameNumber fs - lastTraversalFrame n) =
        unat (frameNumber fs) - unat (lastTraversalFrame n)) \<and>
   (frameNumber fs < lastTraversalFrame n \<longrightarrow>
      unat (frameNumber fs - lastTraversalFrame n) =
        2 ^ 32 + unat (frameNumber fs) - unat (lastTraversalFrame n)) \<and>
   (0 < minExpiryFrames n \<and>
    frameNumber fs = lastTraversalFrame n + minExpiryFrames n - 1 \<longrightarrow>
      \<not> isDormant n (Some fs)) \<and>
   (3 \<le> minExpiryFrames n \<and> minExpiryFrames n \<noteq> - 1 \<and>
    frameNumber fs = lastTraversalFrame n + minExpiryFrames n + 1 \<and>
    minExpiryTime n < toDouble (referenceTime fs - lastTraversalTime n) \<longrightarrow>
      isDormant n (Some fs)) \<and>
   (toDouble (minExpiryTime n) = minExpiryTime n \<and>
    referenceTime fs - lastTraversalTime n \<le> minExpiryTime n \<longrightarrow>
      \<not> isDormant n (Some fs))"
proof -
  let ?m = "minExpiryFrames n"
  have none: "isDormant n None = False"
    by (simp add: isDormant_def)
  have later: "unat (frameNumber fs - lastTraversalFrame n) =
                 unat (frameNumber fs) - unat (lastTraversalFrame n)"
    if "lastTraversalFrame n \<le> frameNumber fs"
    using that by (simp add: unat_sub)
  have earlier: "unat (frameNumber fs - lastTraversalFrame n) =
                   2 ^ 32 + unat (frameNumber fs) - unat (lastTraversalFrame n)"
    if "frameNumber fs < lastTraversalFrame n"
    using that by (simp add: unat_sub_if' word_less_nat_alt)
  have before: "\<not> isDormant n (Some fs)"
    if "0 < ?m \<and> frameNumber fs = lastTraversalFrame n + ?m - 1"
  proof -
    from that have "frameNumber fs - lastTraversalFrame n = ?m - 1"
      by simp
    moreover from that have "unat (?m - 1) = unat ?m - 1"
      by (simp add: unat_pred_frame)
    ultimately have "unat (frameNumber fs - lastTraversalFrame n) \<le> max (unat ?m) 3"
      by simp
    then show ?thesis
      unfolding isDormant_iff by linarith
  qed
  have after: "isDormant n (Some fs)"
    if "3 \<le> ?m \<and> ?m \<noteq> - 1 \<and> frameNumber fs = lastTraversalFrame n + ?m + 1 \<and>
        minExpiryTime n < toDouble (referenceTime fs - lastTraversalTime n)"
  proof -
    from that have "frameNumber fs - lastTraversalFrame n = ?m + 1"
      by simp
    moreover from that have "unat (?m + 1) = unat ?m + 1"
      by (metis add.commute add_eq_0_iff2 unatSuc Suc_eq_plus1)
    moreover from that have "3 \<le> unat ?m"
      by (simp add: word_le_nat_alt)
    ultimately have "max (unat ?m) 3 < unat (frameNumber fs - lastTraversalFrame n)"
      by simp
    with that show ?thesis
      unfolding isDormant_iff by blast
  qed
  have floor: "\<not> isDormant n (Some fs)"
    if "toDouble (minExpiryTime n) = minExpiryTime n \<and>
        referenceTime fs - lastTraversalTime n \<le> minExpiryTime n"
  proof -
    from that have "toDouble (referenceTime fs - lastTraversalTime n) \<le> toDouble (minExpiryTime n)"
      by (intro toDouble_mono) simp
    with that have "toDouble (referenceTime fs - lastTraversalTime n) \<le> minExpiryTime n"
      by simp
    then show ?thesis
      unfolding isDormant_iff by linarith
  qed
  from none isDormant_iff later earlier before after floor show ?thesis
    by blast
qed

lemma toDouble_numeral: "\<bar>numeral k :: int\<bar> < 2 ^ 53 \<Longrightarrow> toDouble (numeral k) = numeral k"
  using toDouble_of_int [of "numeral k"] by simp

theorem isDormant_frames_and_time_witness:
  "(0 :: frame) < minExpiryFrames visitedNode \<and>
   toDouble (minExpiryTime visitedNode) = minExpiryTime visitedNode \<and>
   \<not> isDormant visitedNode (Some \<lparr> frameNumber = 109, referenceTime = 60 \<rparr>) \<and>
   isDormant visitedNode (Some \<lparr> frameNumber = 111, referenceTime = 60 \<rparr>) \<and>
   \<not> isDormant visitedNode (Some \<lparr> frameNumber = 500, referenceTime = 52 \<rparr>) \<and>
   isDormant visitedNode (Some \<lparr> frameNumber = 99, referenceTime = 60 \<rparr>) \<and>
   unat (frameNumber \<lparr> frameNumber = 99, referenceTime = 60 \<rparr> - lastTraversalFrame visitedNode) =
     2 ^ 32 - 1"
  using isDormant_frames_and_time [of visitedNode "\<lparr> frameNumber = 109, referenceTime = 60 \<rparr>"]
        isDormant_frames_and_time [of visitedNode "\<lparr> frameNumber = 111, referenceTime = 60 \<rparr>"]
        isDormant_frames_and_time [of visitedNode "\<lparr> frameNumber = 500, referenceTime = 52 \<rparr>"]
        isDormant_frames_and_time [of visitedNode "\<lparr> frameNumber = 99, referenceTime = 60 \<rparr>"]
  by (simp add: visitedNode_def TileNode_new_def toDouble_numeral)

text \<open>
  C6 as stated fails for a frame stamp earlier than the last traversal, where the
  unsigned difference wraps: a node with the default minimum of 0 frames that was last
  visited at frame F = 1 is dormant at frame F + 0 - 1 = 0. It also fails where the
  elapsed time exceeds the time floor by less than the rounding: between the times
  \<open>255 / 2^60\<close> and \<open>1 + 1 / 2^52\<close>, both doubles, more than one second has elapsed
  and ten frames have passed, but the difference rounds to 1 and the node is not
  dormant.
\<close>

lemma toDouble_rounds_to_one: "toDouble (1 + 1 / 2 ^ 60) = 1"
proof -
  have "roundTo 53 (1 + 1 / 2 ^ 60) =
          2 powi (0 - int 53 + 1) *
            of_int (roundHalfEven ((1 + 1 / 2 ^ 60) / 2 powi (0 - int 53 + 1)))"
    by (rule roundTo_eval) simp_all
  then show ?thesis
    by (simp add: toDouble_def power_int_minus roundHalfEven_def Let_def)
qed

lemma double_255: "toDouble (255 / 2 ^ 60) = 255 / 2 ^ 60"
  using toDouble_exact [of 255 "- 60"] by (simp add: power_int_minus)

lemma double_succ_one: "toDouble (1 + 1 / 2 ^ 52) = 1 + 1 / 2 ^ 52"
proof -
  have "toDouble (4503599627370497 / 2 ^ 52) = 4503599627370497 / 2 ^ 52"
    using toDouble_exact [of 4503599627370497 "- 52"] by (simp add: power_int_minus)
  moreover have "(1 + 1 / 2 ^ 52 :: real) = 4503599627370497 / 2 ^ 52"
    by simp
  ultimately show ?thesis
    by (simp only:)
qed

theorem isDormant_wraps_counterexample:
  "minExpiryFrames defaultNode = 0 \<and>
   frameNumber \<lparr> frameNumber = 0, referenceTime = 1 \<rparr> =
     lastTraversalFrame defaultNode + minExpiryFrames defaultNode - 1 \<and>
   isDormant defaultNode (Some \<lparr> frameNumber = 0, referenceTime = 1 \<rparr>) \<and>
   toDouble (lastTraversalTime timedNode) = lastTraversalTime timedNode \<and>
   toDouble (1 + 1 / 2 ^ 52) = 1 + 1 / 2 ^ 52 \<and>
   minExpiryTime timedNode < 1 + 1 / 2 ^ 52 - lastTraversalTime timedNode \<and>
   unat (frameNumber \<lparr> frameNumber = 10, referenceTime = 1 + 1 / 2 ^ 52 \<rparr> -
         lastTraversalFrame timedNode) = 10 \<and>
   \<not> isDormant timedNode (Some \<lparr> frameNumber = 10, referenceTime = 1 + 1 / 2 ^ 52 \<rparr>)"
proof -
  note a = double_255
  note b = double_succ_one
  have c: "(1 + 1 / 2 ^ 52 - 255 / 2 ^ 60 :: real) = 1 + 1 / 2 ^ 60"
    by simp
  have d: "toDouble (1 + 1 / 2 ^ 52 - 255 / 2 ^ 60) = 1"
    by (simp only: c toDouble_rounds_to_one)
  have e: "toDouble 1 = 1"
    using toDouble_of_int [of 1] by simp
  have 1: "isDormant defaultNode (Some \<lparr> frameNumber = 0, referenceTime = 1 \<rparr>)"
    by (simp add: isDormant_def defaultNode_def TileNode_new_def minMinExpiryFrames_def e)
  have 2: "\<not> isDormant timedNode (Some \<lparr> frameNumber = 10, referenceTime = 1 + 1 / 2 ^ 52 \<rparr>)"
    using d by (simp add: isDormant_def timedNode_def TileNode_new_def)
  have 3: "minExpiryTime timedNode < 1 + 1 / 2 ^ 52 - lastTraversalTime timedNode"
    by (simp add: timedNode_def TileNode_new_def)
  from 1 2 3 a b show ?thesis
    by (simp add: defaultNode_def timedNode_def TileNode_new_def)
qed

subsection \<open>Inheritance at creation\<close>

lemma setDirty_True: "setDirty True n = Inr (n \<lparr> dirty := True \<rparr>)"
  by (simp add: setDirty_def)

lemma create_nonempty:
  "\<not> pooledGeometryEmpty ctx k \<Longrightarrow>
   create k (Some parent) (Some ctx) this =
     Inr (this \<lparr> nodeContext := Some ctx, key := k, surface := Some (SurfaceNode k),
                 loadRequest := Some \<lparr> requestKey = k, filterLayers = {} \<rparr>,
                 stitchNormalMap := normalizeEdges ctx,
                 renderModel := inheritRenderModel (renderBindings ctx) (getQuadrant k)
                                  (renderModel parent) (renderModel this),
                 dirty := True \<rparr>,
          [LiveTilesAdd k, DebugNotify k, NotifyTileAdded k])"
  by (simp add: create_def setDirty_True Let_def)

lemma inheritPass_sampler:
  assumes "s < length (samplers parentPass)"
  shows "samplers (inheritPass bindings q parentPass) ! s =
         scaleBiasSampler q (samplers parentPass ! inheritedFrom bindings s)"
proof (cases "s = COLOR_PARENT \<and> isActive (bindings ! COLOR_PARENT)")
  case True
  with assms have "COLOR < length (samplers parentPass)"
    by (auto simp: COLOR_def COLOR_PARENT_def)
  with True assms show ?thesis
    by (simp add: inheritPass_def inheritedFrom_def Let_def)
next
  case False
  with assms show ?thesis
    by (auto simp: inheritPass_def inheritedFrom_def Let_def)
qed

lemma preMult_identity: "preMult identity m = m"
  by (cases m) (simp add: identity_def)

lemma getQuadrant_less: "getQuadrant k < 4"
  by (simp add: getQuadrant_def)

text \<open>
  C1 (as amended). A child created under a parent, with non-empty geometry, appends one
  pass per pass of the parent; every sampler of such a pass holds the texture and the
  matrix, pre-multiplied by the scale-bias matrix of the child's quadrant, of the
  parent's sampler it inherits from: the sampler of the same usage, except that with an
  active color-parent binding the color-parent sampler copies the child's scaled color
  sampler. The shared samplers are the parent's, scaled the same way. A parent matrix
  that is the identity yields exactly the quadrant's scale-bias matrix, and these are
  the four fixed matrices with scale (0.5, 0.5) and offsets (0, 0.5), (0.5, 0.5), (0, 0),
  (0.5, 0).
\<close>

theorem create_inherits_scale_bias:
  assumes "\<not> pooledGeometryEmpty ctx k"
  shows "\<exists>n ev. create k (Some parent) (Some ctx) this = Inr (n, ev) \<and>
           getQuadrant k < 4 \<and>
           length (passes (renderModel n)) =
             length (passes (renderModel this)) + length (passes (renderModel parent)) \<and>
           (\<forall>p < length (passes (renderModel parent)).
              \<forall>s < length (samplers (passes (renderModel parent) ! p)).
                samplers (passes (renderModel n) ! (length (passes (renderModel this)) + p)) ! s =
                  scaleBiasSampler (getQuadrant k)
                    (samplers (passes (renderModel parent) ! p) ! inheritedFrom (renderBindings ctx) s)) \<and>
           (\<forall>s < length (sharedSamplers (renderModel parent)).
              sharedSamplers (renderModel n) ! s =
                scaleBiasSampler (getQuadrant k) (sharedSamplers (renderModel parent) ! s)) \<and>
           (\<forall>x. matrix x = identity \<longrightarrow>
                matrix (scaleBiasSampler (getQuadrant k) x) = scaleBias (getQuadrant k))"
  using assms
  by (simp add: create_nonempty inheritRenderModel_def nth_append inheritPass_sampler
       scaleBiasSampler_def preMult_identity getQuadrant_less)

theorem create_inherits_scale_bias_witness:
  "\<not> pooledGeometryEmpty (exampleContext False) (createChildKey (key exampleParent) 3) \<and>
   (\<exists>n ev. create (createChildKey (key exampleParent) 3) (Some exampleParent)
             (Some (exampleContext False)) (newChild (exampleContext False)) = Inr (n, ev) \<and>
      getQuadrant (createChildKey (key exampleParent) 3) = 3 \<and>
      samplers (passes (renderModel n) ! 0) =
        [ \<lparr> texture = Some 0, matrix = Matrixf (1/2) 0 0 0  0 (1/2) 0 0  0 0 1 0  (1/2) 0  0 1 \<rparr>,
          \<lparr> texture = Some 5, matrix = Matrixf (1/4) 0 0 0  0 (1/4) 0 0  0 0 1 0  (1/4) (1/2) 0 1 \<rparr> ])"
  using create_inherits_scale_bias [of "exampleContext False" "createChildKey (key exampleParent) 3"
          exampleParent "newChild (exampleContext False)"]
  by (simp add: create_def setDirty_def Let_def exampleContext_def exampleBindings_def exampleParent_def
      newChild_def TileNode_new_def createChildKey_def getQuadrant_def inheritRenderModel_def
      inheritPass_def scaleBiasSampler_def COLOR_def COLOR_PARENT_def scaleBias_def identity_def)

text \<open>
  C1 as stated fails with an active color-parent binding: the color-parent sampler of the
  child is not the parent's color-parent matrix scaled, but the scaled color matrix.
\<close>

theorem create_color_parent_counterexample:
  "(case create (createChildKey (key exampleParent) 1) (Some exampleParent)
           (Some (exampleContext True)) (newChild (exampleContext True)) of
      Inl e \<Rightarrow> False
    | Inr (n, ev) \<Rightarrow>
        matrix (samplers (passes (renderModel n) ! 0) ! COLOR_PARENT) \<noteq>
        preMult (matrix (samplers (passes (renderModel exampleParent) ! 0) ! COLOR_PARENT))
          (scaleBias (getQuadrant (key n))))"
  by (simp add: create_def setDirty_def Let_def exampleContext_def exampleBindings_def exampleParent_def
      newChild_def TileNode_new_def createChildKey_def getQuadrant_def inheritRenderModel_def
      inheritPass_def scaleBiasSampler_def COLOR_def COLOR_PARENT_def scaleBias_def identity_def)

subsection \<open>Merging loaded data\<close>



lemma getPassFrom_cong:
  "map sourceUID ps = map sourceUID ps' \<Longrightarrow> getPassFrom i ps u = getPassFrom i ps' u"
proof (induction ps arbitrary: i ps')
  case Nil
  then show ?case by simp
next
  case (Cons p ps)
  from Cons.prems obtain q qs where ps': "ps' = q # qs"
    and hd: "sourceUID p = sourceUID q" and tl: "map sourceUID ps = map sourceUID qs"
    by (cases ps') auto
  have "getPassFrom (Suc i) ps u = getPassFrom (Suc i) qs u"
    using tl by (rule Cons.IH)
  with ps' hd show ?case by simp
qed

lemma getPass_cong:
  "map sourceUID (passes rm) = map sourceUID (passes rm') \<Longrightarrow> getPass rm u = getPass rm' u"
  unfolding getPass_def by (rule getPassFrom_cong)


lemma map_sourceUID_setPassSampler:
  "map sourceUID (passes (setPassSampler i s v rm)) = map sourceUID (passes rm)"
proof (cases "i < length (passes rm)")
  case True
  then have "(map sourceUID (passes rm)) [i := sourceUID (passes rm ! i)] = map sourceUID (passes rm)"
    by (metis length_map list_update_id nth_map)
  then show ?thesis
    by (simp add: setPassSampler_def map_update)
next
  case False
  then have "length (passes rm) \<le> i" by simp
  then show ?thesis
    by (simp add: setPassSampler_def list_update_beyond)
qed

lemma getPass_setPassSampler [simp]: "getPass (setPassSampler i s v rm) u = getPass rm u"
  by (rule getPass_cong) (rule map_sourceUID_setPassSampler)

lemma length_passes_setPassSampler [simp]:
  "length (passes (setPassSampler i s v rm)) = length (passes rm)"
  by (simp add: setPassSampler_def)

lemma sharedSamplers_setPassSampler [simp]:
  "sharedSamplers (setPassSampler i s v rm) = sharedSamplers rm"
  by (simp add: setPassSampler_def)

lemma autoSet_nth_same [simp]: "autoSet xs i v ! i = v"
  by (simp add: autoSet_def nth_append)





lemma sharedSamplers_new_layer [simp]:
  "sharedSamplers (setLayer i u (addPass rm)) = sharedSamplers rm"
  by (simp add: setLayer_def addPass_def)









lemma sharedSamplers_mergeColorLayer [simp]:
  "sharedSamplers (mergeColorLayer bindings l rm) = sharedSamplers rm"
  by (simp add: mergeColorLayer_def Let_def split: ColorLayerModel.splits option.splits)

lemma sharedSamplers_fold_mergeColorLayer [simp]:
  "sharedSamplers (fold (mergeColorLayer bindings) ls rm) = sharedSamplers rm"
  by (induction ls arbitrary: rm) simp_all

lemma passes_mergeShared [simp]: "passes (fst (mergeShared bindings usage m rm)) = passes rm"
  by (simp add: mergeShared_def split: option.splits)

lemma passes_mergeSharedLayer [simp]: "passes (mergeSharedLayer bindings l rm) = passes rm"
  by (simp add: mergeSharedLayer_def split: option.splits)

lemma passes_fold_mergeSharedLayer [simp]:
  "passes (fold (mergeSharedLayer bindings) ls rm) = passes rm"
  by (induction ls arbitrary: rm) simp_all
























subsection \<open>Re-inheriting parent data\<close>















lemma fold_refreshSharedSampler_Inl [simp]:
  "fold (refreshSharedSampler this q ps) xs (Inl e) = Inl e"
  by (induction xs) (simp_all add: refreshSharedSampler_def)





























subsection \<open>Empty tiles\<close>

text \<open>
  C8. If the pooled geometry of the key is empty, create marks the node empty and stops:
  it returns without an error, the node has no surface, no load request and no inherited
  data, it is not registered and nobody is notified; only the debug line is logged. The
  cull traversal of an empty node does nothing at all: no surface is accepted, no
  children are created, no load is requested, and the node is left as it is.
\<close>

theorem empty_tile_is_inert:
  "(pooledGeometryEmpty ctx k \<longrightarrow>
      create k parent (Some ctx) this =
        Inr (this \<lparr> nodeContext := Some ctx, key := k, isEmpty := True \<rparr>, [DebugTileIsEmpty k])) \<and>
   (isEmpty (self n) \<longrightarrow> traverse (Suc fuel) culler n = Some (Inr (n, [])))"
  by (simp add: create_def Let_def)

theorem empty_tile_is_inert_witness:
  "pooledGeometryEmpty maskedContext (createChildKey (key exampleParent) 1) \<and>
   create (createChildKey (key exampleParent) 1) (Some exampleParent) (Some maskedContext)
       (newChild maskedContext) =
     Inr (TileNode_new \<lparr> nodeContext := Some maskedContext,
                          key := \<lparr> LOD = 1, tileX = 1, tileY = 0 \<rparr>,
                          isEmpty := True \<rparr>,
          [DebugTileIsEmpty \<lparr> LOD = 1, tileX = 1, tileY = 0 \<rparr>]) \<and>
   isEmpty (self emptyTile) \<and>
   traverse 1 (exampleCuller None) emptyTile = Some (Inr (emptyTile, []))"
  using empty_tile_is_inert [of maskedContext "createChildKey (key exampleParent) 1"
          "Some exampleParent" "newChild maskedContext" emptyTile 0 "exampleCuller None"]
  by (simp add: maskedContext_def exampleContext_def newChild_def createChildKey_def
        exampleParent_def TileNode_new_def emptyTile_def)

subsection \<open>Cameras that inherit the view point\<close>

lemma acceptSubTiles_returns:
  assumes "\<forall>c \<in> set cs. accept c \<noteq> None"
  shows "acceptSubTiles accept cs \<noteq> None"
  using assms by (induction cs) (auto split: option.splits sum.splits)

lemma cull_inherit_viewpoint:
  assumes "getCamera culler = Some ABSOLUTE_RF_INHERIT_VIEWPOINT"
  shows "cull accept culler n =
     (case surface (self n) of
        None \<Rightarrow> Some (Inl NullPointer)
      | Some sf \<Rightarrow>
          if \<not> isVisibleFrom culler (key (self n)) then Some (Inr (False, n, []))
          else if shouldSubDivide culler (self n) \<and> childrenReady (self n) then
            (case acceptSubTiles accept (take 4 (children n)) of
               None \<Rightarrow> None
             | Some (Inl e) \<Rightarrow> Some (Inl e)
             | Some (Inr (cs, ev)) \<Rightarrow>
                 Some (Inr (True, TileNode (self n) (cs @ drop 4 (children n)), ev)))
          else Some (Inr (True,
                 TileNode ((self n) \<lparr> lastAcceptSurfaceFrame := frameNumber (getFrameStamp culler) \<rparr>)
                   (children n),
                 [AcceptSurface (key (self n))])))"
  using assms
  by (simp add: cull_def cullCreateChildren_def cullSurfaceAndLoad_def Let_def
        split: option.splits sum.splits)


lemma acceptSubTiles_keys:
  assumes "\<And>c c' e. accept c = Some (Inr (c', e)) \<Longrightarrow>
             tileKeys c' = tileKeys c \<and> set e \<subseteq> AcceptSurface ` set (tileKeys c)"
    and "acceptSubTiles accept cs = Some (Inr (cs', ev))"
  shows "map tileKeys cs' = map tileKeys cs \<and>
         set ev \<subseteq> AcceptSurface ` set (concat (map tileKeys cs))"
  using assms(2)
proof (induction cs arbitrary: cs' ev)
  case Nil
  then show ?case by simp
next
  case (Cons c cs)
  from Cons.prems obtain c' e1 ds e2 where
    c: "accept c = Some (Inr (c', e1))" and
    r: "acceptSubTiles accept cs = Some (Inr (ds, e2))" and
    eq: "cs' = c' # ds" "ev = e1 @ e2"
    by (auto split: option.splits sum.splits)
  from assms(1) [OF c] Cons.IH [OF r] eq show ?case
    by (simp add: image_Un) blast
qed

lemma concat_map_take_drop:
  "concat (map f (take m cs)) @ concat (map f (drop m cs)) = concat (map f cs)"
  by (metis append_take_drop_id concat_append map_append)

lemma concat_take_subset: "set (concat (map f (take m cs))) \<subseteq> set (concat (map f cs))"
  by (auto dest: in_set_takeD)

lemma traverse_inherit_viewpoint_keys:
  assumes cam: "getCamera culler = Some ABSOLUTE_RF_INHERIT_VIEWPOINT"
  shows "traverse fuel culler n = Some (Inr (n', ev)) \<Longrightarrow>
         tileKeys n' = tileKeys n \<and> set ev \<subseteq> AcceptSurface ` set (tileKeys n)"
proof (induction fuel arbitrary: n n' ev)
  case 0
  then show ?case by simp
next
  case (Suc fuel)
  obtain d cs where n: "n = TileNode d cs" by (cases n)
  let ?accept = "traverse fuel culler"
  have sub: "map tileKeys cs' = map tileKeys (take 4 cs) \<and>
             set e \<subseteq> AcceptSurface ` set (concat (map tileKeys cs))"
    if "acceptSubTiles ?accept (take 4 cs) = Some (Inr (cs', e))" for cs' e
  proof -
    have "map tileKeys cs' = map tileKeys (take 4 cs) \<and>
          set e \<subseteq> AcceptSurface ` set (concat (map tileKeys (take 4 cs)))"
      using Suc.IH that by (rule acceptSubTiles_keys)
    then show ?thesis
      using concat_take_subset [of tileKeys 4 cs] by blast
  qed
  show ?case
  proof (cases "isEmpty d")
    case True
    with Suc.prems n show ?thesis by simp
  next
    case False
    show ?thesis
    proof (cases "stealth culler")
      case True
      with Suc.prems n False show ?thesis
        by (auto simp: dropVisible_def accept_cull_stealth_def cull_stealth_def Let_def
              concat_map_take_drop
              split: option.splits sum.splits if_splits dest!: sub)
    next
      case stealth: False
      let ?d = "d \<lparr> lastTraversalFrame := frameNumber (getFrameStamp culler),
                     lastTraversalTime := referenceTime (getFrameStamp culler) \<rparr>"
      show ?thesis
      proof (cases "isCulled culler (key d)")
        case True
        with Suc.prems n False stealth show ?thesis
          by (auto simp: dropVisible_def accept_cull_def Let_def)
      next
        case False
        with Suc.prems n \<open>\<not> isEmpty d\<close> stealth
        have "dropVisible (cull ?accept culler (TileNode ?d cs)) = Some (Inr (n', ev))"
          by (simp add: accept_cull_def Let_def)
        then show ?thesis
          unfolding n cull_inherit_viewpoint [OF cam]
          by (auto simp: dropVisible_def concat_map_take_drop
                split: option.splits sum.splits if_splits dest!: sub)
      qed
    qed
  qed
qed


lemma height_child:
  assumes "c \<in> set cs"
  shows "height c < height (TileNode d cs)"
proof -
  have "fold max (map height cs) 0 = Max (set (0 # map height cs))"
    by (simp only: Max.set_eq_fold)
  moreover have "height c \<le> Max (set (0 # map height cs))"
    using assms by (intro Max_ge) auto
  ultimately show ?thesis by simp
qed

lemma traverse_inherit_viewpoint_returns:
  assumes cam: "getCamera culler = Some ABSOLUTE_RF_INHERIT_VIEWPOINT"
  shows "height n < fuel \<Longrightarrow> traverse fuel culler n \<noteq> None"
proof (induction fuel arbitrary: n)
  case 0
  then show ?case by simp
next
  case (Suc fuel)
  obtain d cs where n: "n = TileNode d cs" by (cases n)
  have "traverse fuel culler c \<noteq> None" if "c \<in> set (take 4 cs)" for c
  proof -
    from that have "c \<in> set cs" by (rule in_set_takeD)
    then have "height c < height n"
      unfolding n by (rule height_child)
    with Suc.prems have "height c < fuel" by simp
    then show ?thesis by (rule Suc.IH)
  qed
  then have sub: "acceptSubTiles (traverse fuel culler) (take 4 cs) \<noteq> None"
    by (intro acceptSubTiles_returns) simp
  show ?case
  proof (cases "stealth culler")
    case True
    with sub show ?thesis
      by (auto simp: n dropVisible_def accept_cull_stealth_def cull_stealth_def Let_def
            split: option.splits sum.splits)
  next
    case False
    with sub show ?thesis
      by (auto simp: n dropVisible_def accept_cull_def Let_def cull_inherit_viewpoint [OF cam]
            split: option.splits sum.splits)
  qed
qed

text \<open>
  C9. For a culler whose camera inherits the view point, the cull traversal of a tree
  returns as soon as the fuel exceeds the height of the tree, and when it returns a
  result the tiles of the tree are those it had before (no child tile was created) and
  everything the visit did outside the nodes is the acceptance of surfaces of tiles of
  the tree: no children created, no load request submitted.
\<close>

theorem inherit_viewpoint_never_subdivides:
  assumes "getCamera culler = Some ABSOLUTE_RF_INHERIT_VIEWPOINT"
  shows "(height n < fuel \<longrightarrow> traverse fuel culler n \<noteq> None) \<and>
         (\<forall>n' ev. traverse fuel culler n = Some (Inr (n', ev)) \<longrightarrow>
            tileKeys n' = tileKeys n \<and>
            (\<forall>e \<in> set ev. \<exists>k \<in> set (tileKeys n). e = AcceptSurface k))"
proof -
  have "tileKeys n' = tileKeys n \<and> (\<forall>e \<in> set ev. \<exists>k \<in> set (tileKeys n). e = AcceptSurface k)"
    if "traverse fuel culler n = Some (Inr (n', ev))" for n' ev
    using traverse_inherit_viewpoint_keys [OF assms that] by blast
  then show ?thesis
    using traverse_inherit_viewpoint_returns [OF assms] by blast
qed

lemma shouldSubDivide_example:
  "shouldSubDivide (exampleCuller cam) d = (LOD (key d) = 0)"
  by (auto simp: shouldSubDivide_def exampleCuller_def exampleContext_def Let_def)

lemma traverse_shadow_root:
  "map_option (map_sum id snd)
     (traverse 2 (exampleCuller (Some ABSOLUTE_RF_INHERIT_VIEWPOINT)) rootTile) =
   Some (Inr [AcceptSurface (key (self rootTile))])"
  by (simp add: numeral_2_eq_2 dropVisible_def accept_cull_def cull_def cullCreateChildren_def
        cullSurfaceAndLoad_def shouldSubDivide_example Let_def rootTile_def exampleParent_def
        TileNode_new_def)
     (simp add: exampleCuller_def)

theorem inherit_viewpoint_never_subdivides_witness:
  "getCamera (exampleCuller (Some ABSOLUTE_RF_INHERIT_VIEWPOINT)) = Some ABSOLUTE_RF_INHERIT_VIEWPOINT \<and>
   height rootTile < 2 \<and>
   traverse 2 (exampleCuller (Some ABSOLUTE_RF_INHERIT_VIEWPOINT)) rootTile \<noteq> None \<and>
   map_option (map_sum id snd)
     (traverse 2 (exampleCuller (Some ABSOLUTE_RF_INHERIT_VIEWPOINT)) rootTile) =
   Some (Inr [AcceptSurface (key (self rootTile))])"
proof -
  have 1: "getCamera (exampleCuller (Some ABSOLUTE_RF_INHERIT_VIEWPOINT)) = Some ABSOLUTE_RF_INHERIT_VIEWPOINT"
    by (simp add: exampleCuller_def)
  have 2: "height rootTile < 2"
    by (simp add: rootTile_def)
  from inherit_viewpoint_never_subdivides [OF 1, of rootTile 2] 2
  have 3: "traverse 2 (exampleCuller (Some ABSOLUTE_RF_INHERIT_VIEWPOINT)) rootTile \<noteq> None"
    by blast
  from 1 2 3 traverse_shadow_root show ?thesis
    by blast
qed

subsection \<open>The quadtree invariant\<close>

lemma create_key_ready:
  "\<exists>d ev. create k parent (Some ctx) this = Inr (d, ev) \<and> key d = k \<and>
           childrenReady d = childrenReady this"
  by (cases parent) (simp_all add: create_def setDirty_True Let_def)

lemma newChild_not_ready: "\<not> childrenReady (newChild ctx)"
  by (simp add: newChild_def TileNode_new_def Let_def split: option.splits)

lemma createChildrenLoop_appends:
  "\<exists>ds ev'. createChildrenLoop ctx qs (TileNode this cs) ev =
              Inr (TileNode this (cs @ map (\<lambda>d. TileNode d []) ds), ev') \<and>
            map key ds = map (createChildKey (key this)) qs \<and>
            list_all (\<lambda>d. \<not> childrenReady d) ds"
proof (induction qs arbitrary: cs ev)
  case Nil
  show ?case by (rule exI [of _ "[]"], rule exI [of _ ev]) simp
next
  case (Cons q qs)
  obtain d e where d: "create (createChildKey (key this) q) (Some this) (Some ctx) (newChild ctx) = Inr (d, e)"
    "key d = createChildKey (key this) q" "\<not> childrenReady d"
    using create_key_ready [of "createChildKey (key this) q" "Some this" ctx "newChild ctx"]
      newChild_not_ready [of ctx] by auto
  from Cons [of "cs @ [TileNode d []]" "ev @ e"] obtain ds ev' where ds:
    "createChildrenLoop ctx qs (TileNode this (cs @ [TileNode d []])) (ev @ e) =
       Inr (TileNode this ((cs @ [TileNode d []]) @ map (\<lambda>d. TileNode d []) ds), ev')"
    "map key ds = map (createChildKey (key this)) qs"
    "list_all (\<lambda>d. \<not> childrenReady d) ds"
    by blast
  show ?case
    using d ds by (intro exI [of _ "d # ds"] exI [of _ ev']) simp
qed

lemma createChildren_appends:
  "\<exists>ds ev. createChildren ctx (TileNode this cs) =
              Inr (TileNode this (cs @ map (\<lambda>d. TileNode d []) ds), ev) \<and>
            map key ds = map (createChildKey (key this)) [0, 1, 2, 3] \<and>
            list_all (\<lambda>d. \<not> childrenReady d) ds"
  unfolding createChildren_def by (rule createChildrenLoop_appends)

lemma quadtree_leaves:
  "list_all (\<lambda>d. \<not> childrenReady d) ds \<Longrightarrow> list_all quadtree (map (\<lambda>d. TileNode d []) ds)"
  by (induction ds) simp_all

lemma quadtree_same_shape:
  assumes "children n' = children n" and "childrenReady (self n') = childrenReady (self n)"
  shows "quadtree n' = quadtree n"
  using assms by (cases n; cases n') simp

lemma cullCreateChildren_quadtree:
  assumes "quadtree n" and "cullCreateChildren culler c l n = Inr (n1, ev1, l1)"
  shows "quadtree n1"
proof (cases "\<not> childrenReady (self n) \<and> c")
  case False
  with assms show ?thesis
    by (auto simp: cullCreateChildren_def)
next
  case True
  obtain d cs where n: "n = TileNode d cs" by (cases n)
  with True assms(1) have cs: "cs = []" by simp
  obtain ds ev where ds:
    "createChildren (getEngineContext culler) (TileNode d cs) =
       Inr (TileNode d (cs @ map (\<lambda>d. TileNode d []) ds), ev)"
    "map key ds = map (createChildKey (key d)) [0, 1, 2, 3]"
    "list_all (\<lambda>d. \<not> childrenReady d) ds"
    using createChildren_appends by blast
  from ds(2) have "length (map key ds) = 4" by simp
  then have len: "length ds = 4" by simp
  from True assms(2) n ds(1) cs
  have "n1 = TileNode (d \<lparr> childrenReady := True \<rparr>) (map (\<lambda>d. TileNode d []) ds)"
    by (simp add: cullCreateChildren_def)
  with len ds(3) show ?thesis
    by (simp add: quadtree_leaves)
qed

lemma cullSurfaceAndLoad_quadtree:
  assumes "cullSurfaceAndLoad culler a l n ev = Some (Inr (v, n', ev'))"
  shows "quadtree n' = quadtree n"
proof (rule quadtree_same_shape)
  show "children n' = children n"
    using assms by (auto simp: cullSurfaceAndLoad_def Let_def split: if_splits sum.splits)
  show "childrenReady (self n') = childrenReady (self n)"
    using assms by (auto simp: cullSurfaceAndLoad_def Let_def split: if_splits sum.splits)
qed

lemma acceptSubTiles_quadtree:
  assumes "\<And>c c' e. accept c = Some (Inr (c', e)) \<Longrightarrow> quadtree c \<Longrightarrow> quadtree c'"
    and "acceptSubTiles accept cs = Some (Inr (cs', ev))" and "list_all quadtree cs"
  shows "length cs' = length cs \<and> list_all quadtree cs'"
  using assms(2,3)
proof (induction cs arbitrary: cs' ev)
  case Nil
  then show ?case by simp
next
  case (Cons c cs)
  from Cons.prems(1) obtain c' e1 ds e2 where
    c: "accept c = Some (Inr (c', e1))" and
    r: "acceptSubTiles accept cs = Some (Inr (ds, e2))" and
    eq: "cs' = c' # ds"
    by (auto split: option.splits sum.splits)
  from Cons.prems(2) have q: "quadtree c" "list_all quadtree cs" by simp_all
  from assms(1) [OF c q(1)] Cons.IH [OF r q(2)] eq show ?case
    by simp
qed

lemma quadtree_subtiles:
  assumes "quadtree (TileNode d cs)" and "childrenReady d"
    and "length cs' = length (take 4 cs)" and "list_all quadtree cs'"
  shows "quadtree (TileNode d (cs' @ drop 4 cs))"
  using assms by simp


lemma cull_quadtree:
  assumes accept: "\<And>c c' e. accept c = Some (Inr (c', e)) \<Longrightarrow> quadtree c \<Longrightarrow> quadtree c'"
    and q: "quadtree n"
    and res: "cull accept culler n = Some (Inr (v, n', ev))"
  shows "quadtree n'"
proof -
  let ?ctx = "getEngineContext culler"
  let ?inherit = "getCamera culler = Some ABSOLUTE_RF_INHERIT_VIEWPOINT"
  let ?create = "if ?inherit then False
                 else if dirty (self n) \<and> progressive ?ctx = True then False
                 else shouldSubDivide culler (self n)"
  let ?load = "if ?inherit then False else True"
  from res obtain sf where sf: "surface (self n) = Some sf"
    by (auto simp: cull_def Let_def split: option.splits)
  show ?thesis
  proof (cases "isVisibleFrom culler (key (self n))")
    case False
    with res sf q show ?thesis
      by (simp add: cull_def Let_def)
  next
    case visible: True
    show ?thesis
    proof (cases "shouldSubDivide culler (self n)")
      case False
      with res sf visible have "cullSurfaceAndLoad culler True ?load n [] = Some (Inr (v, n', ev))"
        by (simp add: cull_def Let_def)
      then have "quadtree n' = quadtree n"
        by (rule cullSurfaceAndLoad_quadtree)
      with q show ?thesis
        by simp
    next
      case inRange: True
      from res sf visible inRange obtain c l n1 ev1 l1 where
        cr: "cullCreateChildren culler c l n = Inr (n1, ev1, l1)" and
        rest: "(if childrenReady (self n1) then
                 (case acceptSubTiles accept (take 4 (children n1)) of
                    None \<Rightarrow> None
                  | Some (Inl e) \<Rightarrow> Some (Inl e)
                  | Some (Inr (cs, ev2)) \<Rightarrow>
                      cullSurfaceAndLoad culler False l1
                        (TileNode (self n1) (cs @ drop 4 (children n1))) (ev1 @ ev2))
               else cullSurfaceAndLoad culler True l1 n1 ev1) = Some (Inr (v, n', ev))"
        by (auto simp: cull_def Let_def split: sum.splits prod.splits)
      from q cr have q1: "quadtree n1"
        by (rule cullCreateChildren_quadtree)
      show ?thesis
      proof (cases "childrenReady (self n1)")
        case False
        with rest
        have "cullSurfaceAndLoad culler True l1 n1 ev1 = Some (Inr (v, n', ev))"
          by simp
        then have "quadtree n' = quadtree n1"
          by (rule cullSurfaceAndLoad_quadtree)
        with q1 show ?thesis
          by simp
      next
        case ready: True
        with rest obtain cs' ev2 where
          sub: "acceptSubTiles accept (take 4 (children n1)) = Some (Inr (cs', ev2))" and
          fin: "cullSurfaceAndLoad culler False l1 (TileNode (self n1) (cs' @ drop 4 (children n1)))
                  (ev1 @ ev2) = Some (Inr (v, n', ev))"
          by (auto split: option.splits sum.splits)
        obtain d cs where n1: "n1 = TileNode d cs" by (cases n1)
        from q1 n1 have "list_all quadtree (take 4 cs)"
          by (auto simp: list_all_iff dest: in_set_takeD)
        with accept sub n1 have "length cs' = length (take 4 cs) \<and> list_all quadtree cs'"
          by (intro acceptSubTiles_quadtree [of accept]) auto
        with q1 ready n1 have "quadtree (TileNode (self n1) (cs' @ drop 4 (children n1)))"
          by simp
        then show ?thesis
          unfolding cullSurfaceAndLoad_quadtree [OF fin] .
      qed
    qed
  qed
qed

lemma cull_stealth_quadtree:
  assumes accept: "\<And>c c' e. accept c = Some (Inr (c', e)) \<Longrightarrow> quadtree c \<Longrightarrow> quadtree c'"
    and q: "quadtree n"
    and res: "cull_stealth accept culler n = Some (Inr (v, n', ev))"
  shows "quadtree n'"
proof (cases "frameNumber (getFrameStamp culler) - lastAcceptSurfaceFrame (self n) < 2")
  case True
  with res q show ?thesis
    by (auto simp: cull_stealth_def Let_def split: option.splits)
next
  case notRecent: False
  show ?thesis
  proof (cases "childrenReady (self n)")
    case False
    with res q notRecent show ?thesis
      by (simp add: cull_stealth_def Let_def)
  next
    case ready: True
    from res notRecent ready obtain cs' where
      sub: "acceptSubTiles accept (take 4 (children n)) = Some (Inr (cs', ev))" and
      n': "n' = TileNode (self n) (cs' @ drop 4 (children n))"
      by (auto simp: cull_stealth_def Let_def split: option.splits sum.splits)
    obtain d cs where n: "n = TileNode d cs" by (cases n)
    from q n have "list_all quadtree (take 4 cs)"
      by (auto simp: list_all_iff dest: in_set_takeD)
    with accept sub n have "length cs' = length (take 4 cs) \<and> list_all quadtree cs'"
      by (intro acceptSubTiles_quadtree [of accept]) auto
    with q ready n n' show ?thesis
      by simp
  qed
qed

lemma traverse_quadtree:
  "traverse fuel culler n = Some (Inr (n', ev)) \<Longrightarrow> quadtree n \<Longrightarrow> quadtree n'"
proof (induction fuel arbitrary: n n' ev)
  case 0
  then show ?case by simp
next
  case (Suc fuel)
  let ?d = "(self n) \<lparr> lastTraversalFrame := frameNumber (getFrameStamp culler),
                        lastTraversalTime := referenceTime (getFrameStamp culler) \<rparr>"
  have q: "quadtree (TileNode ?d (children n))"
    using Suc.prems(2) by (cases n) simp
  show ?case
  proof (cases "isEmpty (self n)")
    case True
    with Suc.prems show ?thesis by simp
  next
    case False
    show ?thesis
    proof (cases "stealth culler")
      case True
      with Suc.prems(1) False obtain v where
        "cull_stealth (traverse fuel culler) culler n = Some (Inr (v, n', ev))"
        by (auto simp: dropVisible_def accept_cull_stealth_def split: option.splits sum.splits)
      with Suc.IH Suc.prems(2) show ?thesis
        by (intro cull_stealth_quadtree [of "traverse fuel culler" n culler _ n' ev]) auto
    next
      case noStealth: False
      show ?thesis
      proof (cases "isCulled culler (key (self n))")
        case True
        with Suc.prems(1) False noStealth q show ?thesis
          by (auto simp: dropVisible_def accept_cull_def Let_def)
      next
        case False
        with Suc.prems(1) \<open>\<not> isEmpty (self n)\<close> noStealth obtain v where
          "cull (traverse fuel culler) culler (TileNode ?d (children n)) = Some (Inr (v, n', ev))"
          by (auto simp: dropVisible_def accept_cull_def Let_def split: option.splits sum.splits)
        with Suc.IH q show ?thesis
          by (intro cull_quadtree [of "traverse fuel culler" _ culler _ n' ev]) auto
      qed
    qed
  qed
qed

lemma cullCreateChildren_ready:
  "childrenReady (self n) \<Longrightarrow> cullCreateChildren culler c l n = Inr (n, [], l)"
  by (simp add: cullCreateChildren_def)

lemma cullCreateChildren_creates:
  assumes "\<not> childrenReady (self n)"
  shows "\<exists>ds ev. cullCreateChildren culler True l n =
                   Inr (TileNode ((self n) \<lparr> childrenReady := True \<rparr>)
                          (children n @ map (\<lambda>d. TileNode d []) ds),
                        CreateChildren (key (self n)) # ev, False) \<and>
                 map key ds = map (createChildKey (key (self n))) [0, 1, 2, 3]"
proof -
  obtain d cs where n: "n = TileNode d cs" by (cases n)
  obtain ds ev where ds:
    "createChildren (getEngineContext culler) (TileNode d cs) =
       Inr (TileNode d (cs @ map (\<lambda>d. TileNode d []) ds), ev)"
    "map key ds = map (createChildKey (key d)) [0, 1, 2, 3]"
    using createChildren_appends by blast
  with assms n show ?thesis
    by (intro exI [of _ ds] exI [of _ ev]) (simp add: cullCreateChildren_def)
qed

lemma quadtree_numChildren: "quadtree n \<Longrightarrow> getNumChildren n = 0 \<or> getNumChildren n = 4"
  by (cases n) (auto simp: getNumChildren_def split: if_splits)

text \<open>
  C5 (as amended). createChildren itself always appends four children, in quadrant
  order 0..3, whose keys are the four child keys of the node's key; it neither looks at
  existing children nor marks them ready. The cull traversal calls it only when the
  children are not ready and then marks them ready; when they are ready that step is a
  no-op. removeSubTiles removes all children at once and clears the flag. Hence a tree
  in which every ready node has four children and every other node none stays so under
  cull traversals and removeSubTiles, and the number of children of each of its nodes
  is 0 or 4.
\<close>

theorem quadtree_children_zero_or_four:
  "(\<exists>ds ev. createChildren ctx (TileNode this cs) =
              Inr (TileNode this (cs @ map (\<lambda>d. TileNode d []) ds), ev) \<and>
            map key ds = map (createChildKey (key this)) [0, 1, 2, 3]) \<and>
   (childrenReady (self n) \<longrightarrow> cullCreateChildren culler c l n = Inr (n, [], l)) \<and>
   (\<not> childrenReady (self n) \<longrightarrow>
      (\<exists>ds ev. cullCreateChildren culler True l n =
                 Inr (TileNode ((self n) \<lparr> childrenReady := True \<rparr>)
                        (children n @ map (\<lambda>d. TileNode d []) ds),
                      CreateChildren (key (self n)) # ev, False) \<and>
               map key ds = map (createChildKey (key (self n))) [0, 1, 2, 3])) \<and>
   removeSubTiles n = TileNode ((self n) \<lparr> childrenReady := False \<rparr>) [] \<and>
   quadtree (removeSubTiles n) \<and>
   (quadtree n \<longrightarrow> getNumChildren n = 0 \<or> getNumChildren n = 4) \<and>
   (quadtree n \<and> traverse fuel culler n = Some (Inr (n', ev')) \<longrightarrow> quadtree n')"
proof -
  have 1: "\<exists>ds ev. createChildren ctx (TileNode this cs) =
              Inr (TileNode this (cs @ map (\<lambda>d. TileNode d []) ds), ev) \<and>
            map key ds = map (createChildKey (key this)) [0, 1, 2, 3]"
    using createChildren_appends [of ctx this cs] by blast
  have 2: "removeSubTiles n = TileNode ((self n) \<lparr> childrenReady := False \<rparr>) []"
    by (simp add: removeSubTiles_def)
  have 3: "quadtree (removeSubTiles n)"
    by (simp add: removeSubTiles_def)
  from 1 2 3 show ?thesis
    using cullCreateChildren_ready [of n culler c l] cullCreateChildren_creates [of n culler l]
      quadtree_numChildren [of n] traverse_quadtree [of fuel culler n n' ev']
    by blast
qed

lemma createChildren_root:
  "createChildren (exampleContext False) rootTile =
     Inr (TileNode (self rootTile)
            (map (\<lambda>q. TileNode (fst (projr (create (createChildKey (key (self rootTile)) q)
                     (Some (self rootTile)) (Some (exampleContext False)) (newChild (exampleContext False))))) [])
               [0, 1, 2, 3]),
          concat (map (\<lambda>q. [LiveTilesAdd (createChildKey (key (self rootTile)) q),
                             DebugNotify (createChildKey (key (self rootTile)) q),
                             NotifyTileAdded (createChildKey (key (self rootTile)) q)]) [0, 1, 2, 3]))"
  by (simp add: createChildren_def rootTile_def create_def setDirty_True Let_def exampleContext_def)

lemma traverse_root_events:
  "map_option (map_sum id (\<lambda>r. (map (key \<circ> self) (children (fst r)), childrenReady (self (fst r)),
                                  map (\<lambda>e. case e of LoaderLoad k p \<Rightarrow> LoaderLoad k 0 | _ \<Rightarrow> e)
                                    (filter (\<lambda>e. \<forall>k. e \<noteq> LiveTilesAdd k \<and> e \<noteq> DebugNotify k \<and>
                                                    e \<noteq> NotifyTileAdded k) (snd r)))))
     (traverse 3 (exampleCuller None) rootTile) =
   Some (Inr (map (createChildKey (key (self rootTile))) [0, 1, 2, 3], True,
     [ CreateChildren (key (self rootTile)),
       AcceptSurface (createChildKey (key (self rootTile)) 0),
       LoaderLoad (createChildKey (key (self rootTile)) 0) 0,
       AcceptSurface (createChildKey (key (self rootTile)) 1),
       LoaderLoad (createChildKey (key (self rootTile)) 1) 0,
       AcceptSurface (createChildKey (key (self rootTile)) 2),
       LoaderLoad (createChildKey (key (self rootTile)) 2) 0,
       AcceptSurface (createChildKey (key (self rootTile)) 3),
       LoaderLoad (createChildKey (key (self rootTile)) 3) 0 ]))"
  by (simp add: numeral_3_eq_3 dropVisible_def accept_cull_def cull_def cullCreateChildren_def
        cullSurfaceAndLoad_def shouldSubDivide_def Let_def createChildren_def load_def
        exampleCuller_def rootTile_def exampleParent_def TileNode_new_def create_def setDirty_True
        exampleContext_def newChild_def createChildKey_def)

theorem quadtree_children_zero_or_four_witness:
  "quadtree rootTile \<and> \<not> childrenReady (self rootTile) \<and>
   (\<exists>n' ev'. traverse 3 (exampleCuller None) rootTile = Some (Inr (n', ev')) \<and>
      childrenReady (self n') \<and> quadtree n' \<and> getNumChildren n' = 4 \<and>
      map (key \<circ> self) (children n') = map (createChildKey (key (self rootTile))) [0, 1, 2, 3] \<and>
      cullCreateChildren (exampleCuller None) True True n' = Inr (n', [], True))"
proof -
  have q: "quadtree rootTile" and nr: "\<not> childrenReady (self rootTile)"
    by (simp_all add: rootTile_def exampleParent_def TileNode_new_def)
  from traverse_root_events obtain x where
    x: "traverse 3 (exampleCuller None) rootTile = Some x" and
    m: "\<exists>e. map_sum id (\<lambda>r. (map (key \<circ> self) (children (fst r)), childrenReady (self (fst r)),
                 map (\<lambda>e. case e of LoaderLoad k p \<Rightarrow> LoaderLoad k 0 | _ \<Rightarrow> e)
                   (filter (\<lambda>e. \<forall>k. e \<noteq> LiveTilesAdd k \<and> e \<noteq> DebugNotify k \<and>
                                   e \<noteq> NotifyTileAdded k) (snd r)))) x =
          Inr (map (createChildKey (key (self rootTile))) [0, 1, 2, 3], True, e)"
    by (auto simp: map_option_case split: option.splits)
  then obtain n' ev' where
    t: "traverse 3 (exampleCuller None) rootTile = Some (Inr (n', ev'))" and
    k: "map (key \<circ> self) (children n') = map (createChildKey (key (self rootTile))) [0, 1, 2, 3]" and
    r: "childrenReady (self n')"
    by (cases x) auto
  from k have "length (map (key \<circ> self) (children n')) = 4" by simp
  then have four: "getNumChildren n' = 4"
    by (simp add: getNumChildren_def)
  from quadtree_children_zero_or_four [where n = rootTile and fuel = 3
         and culler = "exampleCuller None" and n' = n' and ev' = ev'] q t
  have q': "quadtree n'"
    by blast
  from quadtree_children_zero_or_four [where n = n' and culler = "exampleCuller None"
         and c = True and l = True] r
  have noop: "cullCreateChildren (exampleCuller None) True True n' = Inr (n', [], True)"
    by blast
  from q nr t r q' four k noop show ?thesis
    by blast
qed

text \<open>
  C5 as stated fails for createChildren on a node that already has children: it is not a
  no-op but appends four more, and it does not mark the children ready.
\<close>

theorem createChildren_twice_counterexample:
  "\<exists>n1 ev1 n2 ev2.
     createChildren (exampleContext False) rootTile = Inr (n1, ev1) \<and> getNumChildren n1 = 4 \<and>
     createChildren (exampleContext False) n1 = Inr (n2, ev2) \<and> getNumChildren n2 = 8 \<and>
     \<not> childrenReady (self n2)"
proof -
  let ?ctx = "exampleContext False"
  let ?d = "self rootTile"
  have root: "rootTile = TileNode ?d []"
    by (simp add: rootTile_def)
  obtain ds1 ev1 where 1:
    "createChildren ?ctx (TileNode ?d []) = Inr (TileNode ?d ([] @ map (\<lambda>d. TileNode d []) ds1), ev1)"
    "map key ds1 = map (createChildKey (key ?d)) [0, 1, 2, 3]"
    using createChildren_appends [of ?ctx ?d "[]"] by blast
  obtain ds2 ev2 where 2:
    "createChildren ?ctx (TileNode ?d (map (\<lambda>d. TileNode d []) ds1)) =
       Inr (TileNode ?d (map (\<lambda>d. TileNode d []) ds1 @ map (\<lambda>d. TileNode d []) ds2), ev2)"
    "map key ds2 = map (createChildKey (key ?d)) [0, 1, 2, 3]"
    using createChildren_appends [of ?ctx ?d "map (\<lambda>d. TileNode d []) ds1"] by blast
  from 1(2) have "length (map key ds1) = 4" by simp
  then have l1: "length ds1 = 4" by simp
  from 2(2) have "length (map key ds2) = 4" by simp
  then have l2: "length ds2 = 4" by simp
  have nr: "\<not> childrenReady ?d"
    by (simp add: rootTile_def exampleParent_def TileNode_new_def)
  show ?thesis
    using 1(1) 2(1) l1 l2 nr root
    by (intro exI [of _ "TileNode ?d (map (\<lambda>d. TileNode d []) ds1)"] exI [of _ ev1]
          exI [of _ "TileNode ?d (map (\<lambda>d. TileNode d []) ds1 @ map (\<lambda>d. TileNode d []) ds2)"]
          exI [of _ ev2])
       (simp add: getNumChildren_def)
qed

subsection \<open>Load priorities\<close>

lemma loadPriority_antimono:
  assumes "0 < visibilityRange ctx" and "LOD k1 = LOD k2" and "d1 \<le> d2"
  shows "loadPriority ctx k2 d2 \<le> loadPriority ctx k1 d1"
proof -
  let ?r = "visibilityRange ctx"
  from assms(1,3) have "d1 / ?r \<le> d2 / ?r"
    by (simp add: divide_right_mono)
  then have "toDouble (d1 / ?r) \<le> toDouble (d2 / ?r)"
    by (rule toDouble_mono)
  then have "1 - toDouble (d2 / ?r) \<le> 1 - toDouble (d1 / ?r)"
    by simp
  then have "toDouble (1 - toDouble (d2 / ?r)) \<le> toDouble (1 - toDouble (d1 / ?r))"
    by (rule toDouble_mono)
  then have "toFloat (toDouble (1 - toDouble (d2 / ?r))) \<le>
             toFloat (toDouble (1 - toDouble (d1 / ?r)))"
    by (rule toFloat_mono)
  then have "l + toFloat (toDouble (1 - toDouble (d2 / ?r))) \<le>
             l + toFloat (toDouble (1 - toDouble (d1 / ?r)))" for l
    by simp
  then have "toFloat (l + toFloat (toDouble (1 - toDouble (d2 / ?r)))) \<le>
             toFloat (l + toFloat (toDouble (1 - toDouble (d1 / ?r))))" for l
    by (rule toFloat_mono)
  then show ?thesis
    by (simp add: loadPriority_def Let_def assms(2))
qed

text \<open>
  C7 (as amended). load hands the request of the tile to the loader with the priority
  \<open>float (lodPriority + distPriority)\<close>, where \<open>lodPriority\<close> is the tile's LOD as a
  float when the high-resolution-first option is enabled and \<open>numLods - LOD\<close> as a float
  otherwise, and \<open>distPriority\<close> is \<open>1 - distance / visibilityRange\<close> computed in double
  precision and stored as a float; on a tile without a context it fails. For a positive
  visibility range and two tiles at the same LOD, the tile at the smaller or equal
  distance receives a priority that is greater or equal.
\<close>

theorem load_priority_ordering:
  "(nodeContext this = None \<longrightarrow> load culler this = Inl NullPointer) \<and>
   (\<forall>c. nodeContext this = Some c \<longrightarrow>
      load culler this =
        Inr [LoaderLoad (key this)
               (loadPriority c (key this) (getDistanceToViewPoint culler (key this)))]) \<and>
   loadPriority ctx k d =
     toFloat ((if highResolutionFirst ctx then toFloat (of_int (int (LOD k)))
               else toFloat (of_int (int (numLODs ctx) - int (LOD k)))) +
              toFloat (toDouble (1 - toDouble (d / visibilityRange ctx)))) \<and>
   (0 < visibilityRange ctx \<and> LOD k1 = LOD k2 \<and> d1 \<le> d2 \<longrightarrow>
      loadPriority ctx k2 d2 \<le> loadPriority ctx k1 d1)"
proof -
  have "loadPriority ctx k2 d2 \<le> loadPriority ctx k1 d1"
    if "0 < visibilityRange ctx \<and> LOD k1 = LOD k2 \<and> d1 \<le> d2"
    using that by (intro loadPriority_antimono) simp_all
  moreover have "loadPriority ctx k d =
     toFloat ((if highResolutionFirst ctx then toFloat (of_int (int (LOD k)))
               else toFloat (of_int (int (numLODs ctx) - int (LOD k)))) +
              toFloat (toDouble (1 - toDouble (d / visibilityRange ctx))))"
    by (simp add: loadPriority_def Let_def)
  moreover have "nodeContext this = None \<longrightarrow> load culler this = Inl NullPointer"
    by (simp add: load_def)
  moreover have "\<forall>c. nodeContext this = Some c \<longrightarrow>
      load culler this =
        Inr [LoaderLoad (key this)
               (loadPriority c (key this) (getDistanceToViewPoint culler (key this)))]"
    by (simp add: load_def)
  ultimately show ?thesis
    by blast
qed

lemma double_quarter: "toDouble (1 / 4) = 1 / 4"
  using toDouble_exact [of 1 "- 2"] by (simp add: power_int_minus)

lemma double_half: "toDouble (1 / 2) = 1 / 2"
  using toDouble_exact [of 1 "- 1"] by (simp add: power_int_minus)

lemma double_three_quarters: "toDouble (3 / 4) = 3 / 4"
  using toDouble_exact [of 3 "- 2"] by (simp add: power_int_minus)

lemma float_half: "toFloat (1 / 2) = 1 / 2"
  using toFloat_exact [of 1 "- 1"] by (simp add: power_int_minus)

lemma float_three_quarters: "toFloat (3 / 4) = 3 / 4"
  using toFloat_exact [of 3 "- 2"] by (simp add: power_int_minus)

lemma float_20: "toFloat 20 = 20"
  using toFloat_of_int [of 20] by simp

lemma float_20_75: "toFloat (83 / 4) = 83 / 4"
  using toFloat_exact [of 83 "- 2"] by (simp add: power_int_minus)

lemma float_20_5: "toFloat (41 / 2) = 41 / 2"
  using toFloat_exact [of 41 "- 1"] by (simp add: power_int_minus)

lemmas rounding_examples =
  double_quarter double_half double_three_quarters float_half float_three_quarters
  float_20 float_20_75 float_20_5

lemma loadPriority_250: "loadPriority (exampleContext False) k0 250 = 83 / 4" if "LOD k0 = 0"
  using that by (simp add: loadPriority_def exampleContext_def Let_def rounding_examples)

lemma loadPriority_500: "loadPriority (exampleContext False) k0 500 = 41 / 2" if "LOD k0 = 0"
  using that by (simp add: loadPriority_def exampleContext_def Let_def rounding_examples)

theorem load_priority_ordering_witness:
  "nodeContext (self rootTile) = Some (exampleContext False) \<and>
   getDistanceToViewPoint (exampleCuller None) (key (self rootTile)) = 250 \<and>
   load (exampleCuller None) (self rootTile) = Inr [LoaderLoad (key (self rootTile)) (83 / 4)] \<and>
   0 < visibilityRange (exampleContext False) \<and>
   loadPriority (exampleContext False) rootKey 250 = 83 / 4 \<and>
   loadPriority (exampleContext False) rootKey 500 = 41 / 2 \<and>
   loadPriority (exampleContext False) rootKey 500 \<le> loadPriority (exampleContext False) rootKey 250 \<and>
   load (exampleCuller None) TileNode_new = Inl NullPointer"
proof -
  have c: "nodeContext (self rootTile) = Some (exampleContext False)"
      "getDistanceToViewPoint (exampleCuller None) (key (self rootTile)) = 250"
      "LOD (key (self rootTile)) = 0" "LOD rootKey = 0"
      "nodeContext TileNode_new = None"
    by (simp_all add: rootTile_def exampleCuller_def exampleParent_def TileNode_new_def rootKey_def)
  from load_priority_ordering [of "self rootTile" "exampleCuller None"] c(1)
  have "load (exampleCuller None) (self rootTile) =
          Inr [LoaderLoad (key (self rootTile))
                 (loadPriority (exampleContext False) (key (self rootTile))
                    (getDistanceToViewPoint (exampleCuller None) (key (self rootTile))))]"
    by blast
  then have 1: "load (exampleCuller None) (self rootTile) =
                  Inr [LoaderLoad (key (self rootTile)) (83 / 4)]"
    by (simp only: c(2) loadPriority_250 [OF c(3)])
  have r: "0 < visibilityRange (exampleContext False)"
    by (simp add: exampleContext_def)
  have "0 < visibilityRange (exampleContext False) \<and> LOD rootKey = LOD rootKey \<and>
        (250 :: real) \<le> 500"
    using r by simp
  with load_priority_ordering [where ctx = "exampleContext False" and ?k1.0 = rootKey
         and ?k2.0 = rootKey and ?d1.0 = 250 and ?d2.0 = 500]
  have 2: "loadPriority (exampleContext False) rootKey 500 \<le>
           loadPriority (exampleContext False) rootKey 250"
    by blast
  from load_priority_ordering [of TileNode_new "exampleCuller None"] c(5)
  have 3: "load (exampleCuller None) TileNode_new = Inl NullPointer"
    by blast
  from c(1,2) 1 r loadPriority_250 [OF c(4)] loadPriority_500 [OF c(4)] 2 3
  show ?thesis
    by blast
qed

text \<open>
  C7 as stated fails where two distances are too close to be told apart in single
  precision: with a visibility range of 1024, the distance 256 and the next float
  above it, \<open>256 + 2^-15\<close>, give the distance priorities \<open>3/4\<close> and
  \<open>3/4 - 2^-25\<close>; the latter is a tie between two floats and rounds to \<open>3/4\<close>, so
  both tiles receive the priority \<open>20.75\<close>, which for the farther tile is not the sum
  \<open>lodPriority + (1 - distance / visibilityRange)\<close>.
\<close>

lemma float_next_256: "toFloat (256 + 1 / 32768) = 256 + 1 / 32768"
proof -
  have "toFloat (8388609 / 2 ^ 15) = 8388609 / 2 ^ 15"
    using toFloat_exact [of 8388609 "- 15"] by (simp add: power_int_minus)
  moreover have "(256 + 1 / 32768 :: real) = 8388609 / 2 ^ 15"
    by simp
  ultimately show ?thesis
    by (simp only:)
qed

lemma double_quotient: "toDouble (8388609 / 2 ^ 25) = 8388609 / 2 ^ 25"
  using toDouble_exact [of 8388609 "- 25"] by (simp add: power_int_minus)

lemma double_difference: "toDouble (25165823 / 2 ^ 25) = 25165823 / 2 ^ 25"
  using toDouble_exact [of 25165823 "- 25"] by (simp add: power_int_minus)

lemma float_tie: "toFloat (25165823 / 2 ^ 25) = 3 / 4"
proof -
  have "roundTo 24 (25165823 / 2 ^ 25) =
          2 powi (- 1 - int 24 + 1) *
            of_int (roundHalfEven ((25165823 / 2 ^ 25) / 2 powi (- 1 - int 24 + 1)))"
    by (rule roundTo_eval) (simp_all add: power_int_minus)
  then show ?thesis
    by (simp add: toFloat_def power_int_minus roundHalfEven_def Let_def)
qed

lemma loadPriority_rangeContext:
  "loadPriority rangeContext rootKey d =
     toFloat (toFloat 20 + toFloat (toDouble (1 - toDouble (d / 1024))))"
  by (simp add: loadPriority_def rangeContext_def exampleContext_def rootKey_def Let_def)

lemma loadPriority_256: "loadPriority rangeContext rootKey 256 = 83 / 4"
proof -
  have q: "(256 / 1024 :: real) = 1 / 4"
    by simp
  have d: "(1 - 1 / 4 :: real) = 3 / 4"
    by simp
  have "loadPriority rangeContext rootKey 256 =
          toFloat (toFloat 20 + toFloat (toDouble (1 - toDouble (256 / 1024))))"
    by (rule loadPriority_rangeContext)
  also have "\<dots> = toFloat (20 + 3 / 4)"
    by (simp only: q double_quarter d double_three_quarters float_three_quarters float_20)
  also have "\<dots> = toFloat (83 / 4)"
    by simp
  also have "\<dots> = 83 / 4"
    by (rule float_20_75)
  finally show ?thesis .
qed

lemma loadPriority_next_256: "loadPriority rangeContext rootKey (256 + 1 / 32768) = 83 / 4"
proof -
  have q: "((256 + 1 / 32768) / 1024 :: real) = 8388609 / 2 ^ 25"
    by simp
  have d: "(1 - 8388609 / 2 ^ 25 :: real) = 25165823 / 2 ^ 25"
    by simp
  have "loadPriority rangeContext rootKey (256 + 1 / 32768) =
          toFloat (toFloat 20 + toFloat (toDouble (1 - toDouble ((256 + 1 / 32768) / 1024))))"
    by (rule loadPriority_rangeContext)
  also have "\<dots> = toFloat (20 + 3 / 4)"
    by (simp only: q double_quotient d double_difference float_tie float_20)
  also have "\<dots> = toFloat (83 / 4)"
    by simp
  also have "\<dots> = 83 / 4"
    by (rule float_20_75)
  finally show ?thesis .
qed

theorem load_priority_rounding_counterexample:
  "0 < visibilityRange rangeContext \<and>
   toFloat 256 = 256 \<and> toFloat (256 + 1 / 32768) = 256 + 1 / 32768 \<and>
   (256 :: real) < 256 + 1 / 32768 \<and>
   loadPriority rangeContext rootKey 256 = 83 / 4 \<and>
   loadPriority rangeContext rootKey (256 + 1 / 32768) = 83 / 4 \<and>
   \<not> loadPriority rangeContext rootKey (256 + 1 / 32768) < loadPriority rangeContext rootKey 256 \<and>
   loadPriority rangeContext rootKey (256 + 1 / 32768) \<noteq>
     20 + (1 - (256 + 1 / 32768) / visibilityRange rangeContext)"
proof -
  have 1: "0 < visibilityRange rangeContext"
    by (simp add: rangeContext_def)
  have 2: "toFloat 256 = 256"
    using toFloat_of_int [of 256] by simp
  have 3: "(256 :: real) < 256 + 1 / 32768"
    by simp
  have 4: "\<not> loadPriority rangeContext rootKey (256 + 1 / 32768) <
             loadPriority rangeContext rootKey 256"
    by (simp only: loadPriority_256 loadPriority_next_256 less_irrefl not_False_eq_True)
  have 5: "loadPriority rangeContext rootKey (256 + 1 / 32768) \<noteq>
             20 + (1 - (256 + 1 / 32768) / visibilityRange rangeContext)"
    unfolding loadPriority_next_256 by (simp add: rangeContext_def)
  from 1 2 float_next_256 3 loadPriority_256 loadPriority_next_256 4 5 show ?thesis
    by (intro conjI)
qed

end
